theory Spec2Isabelle
  imports Complex_Main "HOL-Library.Multiset"
begin

section \<open>Errors raised by the notebooks\<close>

text \<open>
  The two notebooks are Python scripts cut into cells. Every exception that a modelled
  statement can raise is a value of \<open>error\<close>; a computation that can raise has the
  result type \<open>error + 'a\<close>, with \<open>Inl\<close> for the exception. A \<open>pathlib.Path\<close> is
  \<open>Path\<close> of the string it was made from.
\<close>

datatype path = Path string

text \<open>An error number of the operating system, with the values of Linux.\<close>

type_synonym errno = int

definition ENOENT :: errno where
  "ENOENT = 2"

definition EBADF :: errno where
  "EBADF = 9"

definition EACCES :: errno where
  "EACCES = 13"

definition ENOTDIR :: errno where
  "ENOTDIR = 20"

definition ENAMETOOLONG :: errno where
  "ENAMETOOLONG = 36"

definition ELOOP :: errno where
  "ELOOP = 40"

datatype error =
    OSError errno string path
  | ZeroDivisionError
  | Cv2Error
  | ValueError
  | TypeError
  | KeyError string
  | AttributeError
  | IndexError
  | FileExistsError string
  | FileNotFoundError
  | ShutilError
  | JSONDecodeError
  | ValidationError

definition bind_err :: "error + 'a \<Rightarrow> ('a \<Rightarrow> error + 'b) \<Rightarrow> error + 'b" where
  "bind_err m f = (case m of Inl e \<Rightarrow> Inl e | Inr v \<Rightarrow> f v)"

section \<open>Calibration preprocessing (quantization notebook)\<close>

text \<open>
  An image is a numpy array of shape \<open>(height, width, channels)\<close>: a list of rows, each
  a list of pixels. \<open>x.shape[0]\<close> is the number of rows and \<open>x.shape[1]\<close> the length of
  a row. Python floats are modelled by exact rationals.
\<close>

type_synonym 'a image = "'a list list"

definition shape0 :: "'a image \<Rightarrow> nat" where
  "shape0 x = length x"

definition shape1 :: "'a image \<Rightarrow> nat" where
  "shape1 x = (case x of [] \<Rightarrow> 0 | row # _ \<Rightarrow> length row)"

definition MEAN :: rat where
  "MEAN = 127.5"

definition STD :: rat where
  "STD = 127.5"

text \<open>\<open>np.round\<close> rounds to the nearest integer, a tie to the even neighbour.\<close>

definition np_round :: "rat \<Rightarrow> int" where
  "np_round q =
     (let f = \<lfloor>q\<rfloor>; d = q - of_int f
      in if d < 1 / 2 then f
         else if 1 / 2 < d then f + 1
         else if even f then f else f + 1)"

text \<open>\<open>int(q)\<close> of a float truncates towards zero.\<close>

definition py_int :: "rat \<Rightarrow> int" where
  "py_int q = (if 0 \<le> q then \<lfloor>q\<rfloor> else \<lceil>q\<rceil>)"

text \<open>
  \<open>xs[start:stop]\<close>: a negative bound counts from the end, and both bounds are clipped
  to the length.
\<close>

definition clip_index :: "nat \<Rightarrow> int \<Rightarrow> nat" where
  "clip_index n i = (if i < 0 then nat (max (i + int n) 0) else min (nat i) n)"

definition py_slice :: "'a list \<Rightarrow> int \<Rightarrow> int \<Rightarrow> 'a list" where
  "py_slice xs start stop =
     (let s = clip_index (length xs) start; e = clip_index (length xs) stop
      in take (e - s) (drop s xs))"

text \<open>
  The locals of \<open>resize\<close>, in the order of the source. \<open>RESIZE_SCALE\<close> and \<open>SIZE\<close> are
  computed from \<open>input_tensor_size\<close> when the cell runs.
\<close>

definition RESIZE_SCALE :: "int \<Rightarrow> rat" where
  "RESIZE_SCALE input_tensor_size = 256 / of_int input_tensor_size"

definition SIZE :: "int \<Rightarrow> int" where
  "SIZE input_tensor_size = input_tensor_size"

definition resize_side :: "int \<Rightarrow> 'a image \<Rightarrow> rat" where
  "resize_side input_tensor_size x =
     max (RESIZE_SCALE input_tensor_size * of_int (SIZE input_tensor_size) / of_nat (shape0 x))
         (RESIZE_SCALE input_tensor_size * of_int (SIZE input_tensor_size) / of_nat (shape1 x))"

definition height_tag :: "int \<Rightarrow> 'a image \<Rightarrow> int" where
  "height_tag input_tensor_size x =
     np_round (resize_side input_tensor_size x * of_nat (shape0 x))"

definition width_tag :: "int \<Rightarrow> 'a image \<Rightarrow> int" where
  "width_tag input_tensor_size x =
     np_round (resize_side input_tensor_size x * of_nat (shape1 x))"

definition offset_height :: "int \<Rightarrow> 'a image \<Rightarrow> int" where
  "offset_height input_tensor_size x =
     py_int (of_int (height_tag input_tensor_size x - SIZE input_tensor_size) / 2)"

definition offset_width :: "int \<Rightarrow> 'a image \<Rightarrow> int" where
  "offset_width input_tensor_size x =
     py_int (of_int (width_tag input_tensor_size x - SIZE input_tensor_size) / 2)"

text \<open>
  \<open>cv2.resize\<close> belongs to OpenCV and is a parameter of the model: it takes the image and
  \<open>dsize = (width, height)\<close>. Dividing by \<open>input_tensor_size = 0\<close>, by \<open>x.shape[0] = 0\<close> or
  by \<open>x.shape[1] = 0\<close> raises \<open>ZeroDivisionError\<close>. The crop is
  \<open>resized_img[offset_height : offset_height + SIZE, offset_width : offset_width + SIZE]\<close>.
\<close>

definition resize ::
  "int \<Rightarrow> ('a image \<Rightarrow> int \<times> int \<Rightarrow> error + 'a image) \<Rightarrow> 'a image \<Rightarrow> error + 'a image" where
  "resize input_tensor_size cv2_resize x =
     (if input_tensor_size = 0 \<or> shape0 x = 0 \<or> shape1 x = 0 then Inl ZeroDivisionError
      else
        bind_err
          (cv2_resize x (width_tag input_tensor_size x, height_tag input_tensor_size x))
          (\<lambda>resized_img.
             Inr (map (\<lambda>row. py_slice row (offset_width input_tensor_size x)
                                 (offset_width input_tensor_size x + SIZE input_tensor_size))
                    (py_slice resized_img (offset_height input_tensor_size x)
                       (offset_height input_tensor_size x + SIZE input_tensor_size)))))"

text \<open>\<open>normalization\<close> is applied by numpy to every channel value of the array.\<close>

definition normalization :: "rat list image \<Rightarrow> rat list image" where
  "normalization x = map (map (map (\<lambda>v. (v - MEAN) / STD))) x"

text \<open>
  The documented contract of \<open>cv2.resize\<close>: for a non-empty source and a positive
  \<open>dsize\<close>, the result has the requested size.
\<close>

definition cv2_contract :: "('a image \<Rightarrow> int \<times> int \<Rightarrow> error + 'a image) \<Rightarrow> bool" where
  "cv2_contract cv2_resize =
     (\<forall>img w h. 0 < w \<and> 0 < h \<and> 0 < shape0 img \<and> 0 < shape1 img \<longrightarrow>
        (\<exists>r. cv2_resize img (w, h) = Inr r \<and> length r = nat h \<and>
             (\<forall>row \<in> set r. length row = nat w)))"

text \<open>A stand-in for \<open>cv2.resize\<close> in concrete runs: it samples the nearest source pixel.\<close>

definition nearest_resize :: "'a image \<Rightarrow> int \<times> int \<Rightarrow> error + 'a image" where
  "nearest_resize img dsize =
     (case dsize of (w, h) \<Rightarrow>
        if w \<le> 0 \<or> h \<le> 0 \<or> shape0 img = 0 \<or> shape1 img = 0 then Inl Cv2Error
        else Inr (map (\<lambda>i. map (\<lambda>j. img ! (i * shape0 img div nat h) ! (j * shape1 img div nat w))
                              [0..<nat w])
                    [0..<nat h]))"

section \<open>Loading the configuration (both notebooks)\<close>

text \<open>A value read by \<open>json.load\<close>; \<open>JObj\<close> holds a dict, looked up with \<open>map_of\<close>.\<close>

datatype json =
    JNull
  | JBool bool
  | JInt int
  | JFloat rat
  | JStr string
  | JArr "json list"
  | JObj "(string \<times> json) list"

text \<open>
  What the configuration cell reads from outside the notebook:
  \<^item> \<open>lstat_islnk p\<close>: \<open>S_ISLNK(p.lstat().st_mode)\<close>, or the error number of the
    \<open>OSError\<close> that \<open>lstat\<close> raises (a \<open>ValueError\<close> of \<open>lstat\<close> counts as \<open>False\<close>, as
    \<open>is_symlink\<close> answers it);
  \<^item> \<open>strerror n\<close>: the message of the \<open>OSError\<close> with the error number \<open>n\<close>;
  \<^item> \<open>json_load p\<close>: the result of \<open>open(p, "r")\<close> followed by \<open>json.load\<close>, or the
    exception one of them raises;
  \<^item> \<open>jsonschema_validate instance schema\<close>: the exception raised by
    \<open>jsonschema.validate\<close>, \<open>None\<close> when the instance passes;
  \<^item> \<open>os_path_sep\<close>: \<open>os.path.sep\<close>;
  \<^item> \<open>int_of_string\<close>: \<open>int(s)\<close> of a string, \<open>None\<close> for \<open>ValueError\<close>;
  \<^item> \<open>str_of\<close>: \<open>str(v)\<close> of a configuration value.
\<close>

record env =
  lstat_islnk :: "path \<Rightarrow> errno + bool"
  strerror :: "errno \<Rightarrow> string"
  json_load :: "path \<Rightarrow> error + json"
  jsonschema_validate :: "json \<Rightarrow> json \<Rightarrow> error option"
  os_path_sep :: char
  int_of_string :: "string \<Rightarrow> int option"
  str_of :: "json \<Rightarrow> string"

text \<open>
  \<open>Path.is_symlink\<close> of pathlib (Python 3.8 to 3.12): it answers \<open>False\<close> when \<open>lstat\<close>
  fails with \<open>ENOENT\<close>, \<open>ENOTDIR\<close>, \<open>EBADF\<close> or \<open>ELOOP\<close>, and lets every other \<open>OSError\<close>
  of \<open>lstat\<close> through.
\<close>

definition is_symlink :: "env \<Rightarrow> path \<Rightarrow> error + bool" where
  "is_symlink e p =
     (case lstat_islnk e p of
        Inr islnk \<Rightarrow> Inr islnk
      | Inl n \<Rightarrow>
          if n = ENOENT \<or> n = ENOTDIR \<or> n = EBADF \<or> n = ELOOP then Inr False
          else Inl (OSError n (strerror e n) p))"

text \<open>
  \<open>validate_symlink\<close> is defined in both notebooks with the same body; the arguments of
  its \<open>OSError\<close> are \<open>errno.ELOOP\<close>, the message and the path. An \<open>OSError\<close> raised by
  \<open>path.is_symlink()\<close> leaves the function as it is.
\<close>

definition validate_symlink :: "env \<Rightarrow> path \<Rightarrow> error + unit" where
  "validate_symlink e p =
     bind_err (is_symlink e p) (\<lambda>link.
       if link
       then Inl (OSError ELOOP ''Symbolic link is not supported. Please use real folder or file'' p)
       else Inr ())"

text \<open>\<open>d[key]\<close>: \<open>KeyError\<close> for a missing key, \<open>TypeError\<close> when \<open>d\<close> is not a dict.\<close>

fun getitem :: "json \<Rightarrow> string \<Rightarrow> error + json" where
  "getitem (JObj kvs) k = (case map_of kvs k of None \<Rightarrow> Inl (KeyError k) | Some v \<Rightarrow> Inr v)"
| "getitem _ k = Inl TypeError"

text \<open>\<open>d.get(key, default)\<close>: only a dict has the method.\<close>

fun dict_get :: "json \<Rightarrow> string \<Rightarrow> json \<Rightarrow> error + json" where
  "dict_get (JObj kvs) k d = Inr (case map_of kvs k of None \<Rightarrow> d | Some v \<Rightarrow> v)"
| "dict_get _ k d = Inl AttributeError"

text \<open>\<open>v.replace(os.path.sep, "/")\<close>: only a string has the method.\<close>

fun replace_sep :: "env \<Rightarrow> json \<Rightarrow> error + string" where
  "replace_sep e (JStr s) = Inr (map (\<lambda>c. if c = os_path_sep e then CHR ''/'' else c) s)"
| "replace_sep e _ = Inl AttributeError"

text \<open>\<open>int(v)\<close> of a configuration value.\<close>

fun int_of_json :: "env \<Rightarrow> json \<Rightarrow> error + int" where
  "int_of_json e (JInt n) = Inr n"
| "int_of_json e (JBool b) = Inr (if b then 1 else 0)"
| "int_of_json e (JFloat q) = Inr (py_int q)"
| "int_of_json e (JStr s) = (case int_of_string e s of None \<Rightarrow> Inl ValueError | Some n \<Rightarrow> Inr n)"
| "int_of_json e _ = Inl TypeError"

text \<open>\<open>"*." + v\<close>: a string can only be concatenated with a string.\<close>

fun star_dot :: "json \<Rightarrow> error + string" where
  "star_dot (JStr s) = Inr (''*.'' @ s)"
| "star_dot _ = Inl TypeError"

text \<open>\<open>jsonschema.validate(instance, schema)\<close> as a step that can raise.\<close>

definition validate :: "env \<Rightarrow> json \<Rightarrow> json \<Rightarrow> error + unit" where
  "validate e instance schema =
     (case jsonschema_validate e instance schema of None \<Rightarrow> Inr () | Some err \<Rightarrow> Inl err)"

text \<open>
  The variables that the configuration cell of the export notebook assigns after the
  validation, and the cell, statement by statement.
\<close>

record export_config =
  cvat_username :: json
  cvat_password :: json
  cvat_project_id :: json
  export_format :: json
  export_dir :: string

definition load_configurations_export :: "env \<Rightarrow> error + export_config" where
  "load_configurations_export e =
     bind_err (validate_symlink e (Path ''./configuration.json'')) (\<lambda>_.
     bind_err (json_load e (Path ''./configuration.json'')) (\<lambda>app_configuration.
     bind_err (validate_symlink e (Path ''./configuration_schema_export.json'')) (\<lambda>_.
     bind_err (json_load e (Path ''./configuration_schema_export.json'')) (\<lambda>json_schema.
     bind_err (validate e app_configuration json_schema) (\<lambda>_.
     bind_err (getitem app_configuration ''cvat_username'') (\<lambda>username.
     bind_err (dict_get app_configuration ''cvat_password'' (JStr [])) (\<lambda>password.
     bind_err (dict_get app_configuration ''cvat_project_id'' (JStr [])) (\<lambda>project_id.
     bind_err (getitem app_configuration ''export_format'') (\<lambda>format.
     bind_err (bind_err (getitem app_configuration ''export_dir'') (replace_sep e)) (\<lambda>dir.
     bind_err (validate_symlink e (Path dir)) (\<lambda>_.
     Inr \<lparr>cvat_username = username, cvat_password = password, cvat_project_id = project_id,
          export_format = format, export_dir = dir\<rparr>)))))))))))"

text \<open>The variables assigned by the configuration cell of the quantization notebook.\<close>

record quantize_config =
  source_keras_model :: string
  dataset_image_dir :: string
  batch_size :: int
  input_tensor_size :: int
  iteration_count :: int
  output_dir :: string
  evaluate_image_dir :: string
  evaluate_image_extension :: string
  evaluate_label_file :: string
  evaluate_result_dir :: string

text \<open>\<open>app_configuration[key].replace(os.path.sep, "/")\<close>, then \<open>validate_symlink\<close>.\<close>

definition path_entry :: "env \<Rightarrow> json \<Rightarrow> string \<Rightarrow> error + string" where
  "path_entry e app_configuration k =
     bind_err (bind_err (getitem app_configuration k) (replace_sep e)) (\<lambda>p.
     bind_err (validate_symlink e (Path p)) (\<lambda>_. Inr p))"

text \<open>\<open>int(app_configuration[key])\<close>.\<close>

definition int_entry :: "env \<Rightarrow> json \<Rightarrow> string \<Rightarrow> error + int" where
  "int_entry e app_configuration k = bind_err (getitem app_configuration k) (int_of_json e)"

definition load_configurations_quantize :: "env \<Rightarrow> error + quantize_config" where
  "load_configurations_quantize e =
     bind_err (validate_symlink e (Path ''./configuration.json'')) (\<lambda>_.
     bind_err (json_load e (Path ''./configuration.json'')) (\<lambda>app_configuration.
     bind_err (validate_symlink e (Path ''./configuration_schema.json'')) (\<lambda>_.
     bind_err (json_load e (Path ''./configuration_schema.json'')) (\<lambda>json_schema.
     bind_err (validate e app_configuration json_schema) (\<lambda>_.
     bind_err (path_entry e app_configuration ''source_keras_model'') (\<lambda>keras_model.
     bind_err (path_entry e app_configuration ''dataset_image_dir'') (\<lambda>image_dir.
     bind_err (int_entry e app_configuration ''batch_size'') (\<lambda>batch.
     bind_err (int_entry e app_configuration ''input_tensor_size'') (\<lambda>tensor_size.
     bind_err (int_entry e app_configuration ''iteration_count'') (\<lambda>iterations.
     bind_err (path_entry e app_configuration ''output_dir'') (\<lambda>out_dir.
     bind_err (path_entry e app_configuration ''evaluate_image_dir'') (\<lambda>eval_dir.
     bind_err (bind_err (getitem app_configuration ''evaluate_image_extension'') star_dot)
       (\<lambda>extension.
     bind_err (path_entry e app_configuration ''evaluate_label_file'') (\<lambda>label_file.
     bind_err (path_entry e app_configuration ''evaluate_result_dir'') (\<lambda>result_dir.
     Inr \<lparr>source_keras_model = keras_model, dataset_image_dir = image_dir, batch_size = batch,
          input_tensor_size = tensor_size, iteration_count = iterations, output_dir = out_dir,
          evaluate_image_dir = eval_dir, evaluate_image_extension = extension,
          evaluate_label_file = label_file, evaluate_result_dir = result_dir\<rparr>)))))))))))))))"

text \<open>
  The cells after the configuration cell of the quantization notebook (loading the model,
  quantization, conversion, evaluation) call external libraries with the loaded variables.
  They are the parameter \<open>steps\<close>; a cell runs only when the cells before it raised
  nothing.
\<close>

definition run_quantize_notebook ::
  "env \<Rightarrow> (quantize_config \<Rightarrow> error + 'r) \<Rightarrow> error + 'r" where
  "run_quantize_notebook e steps = bind_err (load_configurations_quantize e) steps"

text \<open>
  A concrete environment for running the cells: the directory holds the configuration
  \<open>cfg\<close> and an empty schema, \<open>./link\<close> is a symbolic link, \<open>lstat\<close> fails with
  \<open>ENAMETOOLONG\<close> on a path of more than 255 characters, and \<open>jsonschema.validate\<close>
  answers \<open>verdict\<close>.
\<close>

definition example_env :: "json \<Rightarrow> error option \<Rightarrow> env" where
  "example_env cfg verdict =
     \<lparr>lstat_islnk = (\<lambda>p. case p of Path s \<Rightarrow>
        if 255 < length s then Inl ENAMETOOLONG else Inr (s = ''./link'')),
      strerror = (\<lambda>n. if n = ENAMETOOLONG then ''File name too long'' else ''Error''),
      json_load = (\<lambda>p.
        if p = Path ''./configuration.json'' then Inr cfg
        else if p = Path ''./configuration_schema_export.json'' \<or>
                p = Path ''./configuration_schema.json'' then Inr (JObj [])
        else Inl FileNotFoundError),
      jsonschema_validate = (\<lambda>instance schema. verdict),
      os_path_sep = CHR ''/'',
      int_of_string = (\<lambda>s. if s = ''224'' then Some 224 else None),
      str_of = (\<lambda>v. case v of JInt n \<Rightarrow> (if n = 1 then ''1'' else ''n'') | JStr s \<Rightarrow> s | _ \<Rightarrow> ''v'')\<rparr>"

definition example_export_configuration :: "string \<Rightarrow> json" where
  "example_export_configuration dir =
     JObj [(''cvat_username'', JStr ''django''),
           (''cvat_password'', JStr ''secret''),
           (''cvat_project_id'', JInt 1),
           (''export_format'', JStr ''ImageNet 1.0''),
           (''export_dir'', JStr dir)]"

definition example_quantize_configuration :: json where
  "example_quantize_configuration =
     JObj [(''source_keras_model'', JStr ''./model''),
           (''dataset_image_dir'', JStr ''./images''),
           (''batch_size'', JInt 50),
           (''input_tensor_size'', JStr ''224''),
           (''iteration_count'', JInt 10),
           (''output_dir'', JStr ''./output''),
           (''evaluate_image_dir'', JStr ''./evaluate/images''),
           (''evaluate_image_extension'', JStr ''JPEG''),
           (''evaluate_label_file'', JStr ''./evaluate/labels.json''),
           (''evaluate_result_dir'', JStr ''./evaluate/results'')]"

section \<open>Downloading the dataset (export notebook)\<close>

text \<open>
  The cell talks to the CVAT server and to the file system. Both are explicit:
  \<^item> the server is \<open>api\<close>, which gives for the \<open>n\<close>-th call of \<open>retrieve_dataset\<close> (counted
    from 0) the status of the response and the name of the temporary file that the
    client wrote (\<open>response.status\<close> and \<open>data.name\<close>);
  \<^item> the file system is a value of a type \<open>'fs\<close> of which the cell knows nothing; it is
    read and changed only by the calls of the library, which are the fields of \<open>os\<close>;
  \<^item> every call with an effect outside the notebook is recorded in a trace when it
    returns, in order.
\<close>

record response =
  resp_status :: int
  data_name :: string

datatype event =
    ListProjects
  | RetrieveDataset json string string json
  | Print string
  | Sleep nat
  | Makedirs string
  | Move string string

text \<open>
  The calls of the library that touch the file system:
  \<^item> \<open>client_write fs name\<close>: the file system after the client has written the temporary
    file \<open>name\<close> of a response;
  \<^item> \<open>os_path_exists fs p\<close>: \<open>os.path.exists(p)\<close>;
  \<^item> \<open>os_makedirs fs p\<close>: \<open>os.makedirs(p)\<close>, the exception it raises, if any, together
    with the file system that the call leaves (it creates the missing ancestors of \<open>p\<close>
    one after the other, and raises for example \<open>FileExistsError\<close> or
    \<open>FileNotFoundError\<close>);
  \<^item> \<open>shutil_move fs src dst\<close>: \<open>shutil.move(src, dst)\<close>, in the same way.
\<close>

record 'fs os =
  client_write :: "'fs \<Rightarrow> string \<Rightarrow> 'fs"
  os_path_exists :: "'fs \<Rightarrow> string \<Rightarrow> bool"
  os_makedirs :: "'fs \<Rightarrow> string \<Rightarrow> error option \<times> 'fs"
  shutil_move :: "'fs \<Rightarrow> string \<Rightarrow> string \<Rightarrow> error option \<times> 'fs"

text \<open>The variables of the cell that change, the file system and the trace.\<close>

record 'fs download_state =
  status :: int
  temp_filepath :: string
  wt_count :: nat
  calls :: nat
  fsys :: 'fs
  trace :: "event list"

definition wt_list :: "string list" where
  "wt_list = [''.'', ''..'', ''...'', ''....'']"

definition wt_len :: nat where
  "wt_len = length wt_list"

text \<open>
  One pass through the body of \<open>while status != 200 and status != 201\<close>: the call, the
  message, \<open>time.sleep(1)\<close>, and the updates of \<open>temp_filepath\<close> and \<open>wt_count\<close>. The
  client has written the temporary file when the call returns. \<open>wt_count\<close> starts at 0
  and is reset when it reaches \<open>wt_len\<close>, so \<open>wt_list[wt_count]\<close> is always in range.
\<close>

definition loop_body ::
  "'fs os \<Rightarrow> (nat \<Rightarrow> response) \<Rightarrow> export_config \<Rightarrow> string \<Rightarrow>
   'fs download_state \<Rightarrow> 'fs download_state" where
  "loop_body os api cfg filename s =
     (let r = api (calls s);
          status' = resp_status r;
          message =
            (if status' \<noteq> 200 \<and> status' \<noteq> 201
             then CHR 0x0D # ''Dataset is downloading now.'' @ wt_list ! wt_count s
             else CHR 0x0A # ''Dataset is downloaded.'');
          wt_count' = wt_count s + 1
      in \<lparr>status = status',
          temp_filepath = data_name r,
          wt_count = (if wt_count' = wt_len then 0 else wt_count'),
          calls = calls s + 1,
          fsys = client_write os (fsys s) (data_name r),
          trace = trace s @
            [RetrieveDataset (cvat_project_id cfg) ''download'' filename (export_format cfg),
             Print message,
             Sleep 1]\<rparr>)"

text \<open>The loop returns \<open>None\<close> when it never ends.\<close>

partial_function (option) download_loop ::
  "'fs os \<Rightarrow> (nat \<Rightarrow> response) \<Rightarrow> export_config \<Rightarrow> string \<Rightarrow>
   'fs download_state \<Rightarrow> 'fs download_state option" where
  "download_loop os api cfg filename s =
     (if status s \<noteq> 200 \<and> status s \<noteq> 201
      then download_loop os api cfg filename (loop_body os api cfg filename s)
      else Some s)"

text \<open>
  The first statement after the loop, \<open>if not os.path.exists(export_dir):
  os.makedirs(export_dir)\<close>. An exception of \<open>os.makedirs\<close> ends the cell.
\<close>

definition makedirs_if_missing ::
  "'fs os \<Rightarrow> string \<Rightarrow> 'fs download_state \<Rightarrow> error option \<times> 'fs download_state" where
  "makedirs_if_missing os dir s =
     (if \<not> os_path_exists os (fsys s) dir
      then (case os_makedirs os (fsys s) dir of
              (Some err, fs') \<Rightarrow> (Some err, s\<lparr>fsys := fs'\<rparr>)
            | (None, fs') \<Rightarrow> (None, s\<lparr>fsys := fs', trace := trace s @ [Makedirs dir]\<rparr>))
      else (None, s))"

text \<open>
  The second statement, \<open>if not os.path.exists(export_dir + filename): shutil.move(...)
  ... else: raise FileExistsError(...)\<close>. The guard tests the two strings put together.
\<close>

definition move_if_absent ::
  "'fs os \<Rightarrow> string \<Rightarrow> string \<Rightarrow> 'fs download_state \<Rightarrow> error option \<times> 'fs download_state" where
  "move_if_absent os dir filename s =
     (if \<not> os_path_exists os (fsys s) (dir @ filename) then
        (case shutil_move os (fsys s) (temp_filepath s) dir of
           (Some err, fs') \<Rightarrow> (Some err, s\<lparr>fsys := fs'\<rparr>)
         | (None, fs') \<Rightarrow>
             (None,
              s\<lparr>fsys := fs',
                trace := trace s @
                  [Move (temp_filepath s) dir,
                   Print ''Dataset moved. Download process is completed.'']\<rparr>))
      else
        (Some (FileExistsError
           (''Failed to move dataset. A dataset file with the same name exists in the export_dir: ''
              @ dir)),
         s))"

text \<open>
  The statements after the loop, one after the other. The result is the exception that
  ends the cell, if any, and the state it leaves.
\<close>

definition move_dataset ::
  "'fs os \<Rightarrow> string \<Rightarrow> string \<Rightarrow> 'fs download_state \<Rightarrow> error option \<times> 'fs download_state" where
  "move_dataset os dir filename s =
     (case makedirs_if_missing os dir s of
        (Some err, s1) \<Rightarrow> (Some err, s1)
      | (None, s1) \<Rightarrow> move_if_absent os dir filename s1)"

text \<open>The cell: the initial values, the loop, the move.\<close>

definition initial_state :: "'fs \<Rightarrow> 'fs download_state" where
  "initial_state fs =
     \<lparr>status = 0, temp_filepath = [], wt_count = 0, calls = 0, fsys = fs, trace = [ListProjects]\<rparr>"

definition dataset_filename :: "env \<Rightarrow> export_config \<Rightarrow> string" where
  "dataset_filename e cfg = ''project_id_'' @ str_of e (cvat_project_id cfg) @ ''.zip''"

definition download_dataset ::
  "env \<Rightarrow> 'fs os \<Rightarrow> export_config \<Rightarrow> (nat \<Rightarrow> response) \<Rightarrow> 'fs \<Rightarrow>
   (error option \<times> 'fs download_state) option" where
  "download_dataset e os cfg api fs =
     map_option (move_dataset os (export_dir cfg) (dataset_filename e cfg))
       (download_loop os api cfg (dataset_filename e cfg) (initial_state fs))"

text \<open>
  The export notebook, cell after cell: a cell runs only when the cells before it raised
  nothing. The result is the exception that stops the run, if any, with the file system
  and the trace at that point; \<open>None\<close> when the run never ends.
\<close>

definition run_export_notebook ::
  "env \<Rightarrow> 'fs os \<Rightarrow> (nat \<Rightarrow> response) \<Rightarrow> 'fs \<Rightarrow> (error option \<times> 'fs \<times> event list) option" where
  "run_export_notebook e os api fs =
     (case load_configurations_export e of
        Inl err \<Rightarrow> Some (Some err, fs, [])
      | Inr cfg \<Rightarrow>
          map_option (\<lambda>(r, s). (r, fsys s, trace s)) (download_dataset e os cfg api fs))"

text \<open>The state after the first \<open>n\<close> passes through the loop body.\<close>

definition after_passes ::
  "'fs os \<Rightarrow> (nat \<Rightarrow> response) \<Rightarrow> export_config \<Rightarrow> string \<Rightarrow> nat \<Rightarrow>
   'fs download_state \<Rightarrow> 'fs download_state" where
  "after_passes os api cfg filename n s = (loop_body os api cfg filename ^^ n) s"

text \<open>The functions of \<open>os.path\<close> that work on the string of a path, for POSIX.\<close>

definition rstrip_sep :: "string \<Rightarrow> string" where
  "rstrip_sep p = rev (dropWhile (\<lambda>c. c = CHR ''/'') (rev p))"

definition os_path_basename :: "string \<Rightarrow> string" where
  "os_path_basename p = rev (takeWhile (\<lambda>c. c \<noteq> CHR ''/'') (rev p))"

definition os_path_join :: "string \<Rightarrow> string \<Rightarrow> string" where
  "os_path_join a b =
     (if b \<noteq> [] \<and> hd b = CHR ''/'' then b
      else if a = [] \<or> last a = CHR ''/'' then a @ b
      else a @ ''/'' @ b)"

text \<open>
  A small file system for running the cell: a map from a path to the kind of object
  found there. It stands for a directory tree without symbolic links in which the
  current directory and \<open>/tmp\<close> exist, and it follows the library for the paths that the
  examples use: a name directly below the current directory, written \<open>./name\<close> or
  \<open>./name/\<close>, a file below such a directory, and a file of \<open>/tmp\<close>. A path is stored
  without its trailing separators; a path with a trailing separator names a directory
  only.
\<close>

datatype node = File | Dir

type_synonym filesystem = "string \<Rightarrow> node option"

definition lookup :: "filesystem \<Rightarrow> string \<Rightarrow> node option" where
  "lookup fs p =
     (if p = [] then None
      else if rstrip_sep p = [] then Some Dir
      else case fs (rstrip_sep p) of
             Some File \<Rightarrow> if rstrip_sep p = p then Some File else None
           | r \<Rightarrow> r)"

text \<open>
  \<open>os.makedirs(p)\<close> in this file system: \<open>FileNotFoundError\<close> for the empty path,
  \<open>FileExistsError\<close> when something is at \<open>p\<close>, a new directory otherwise.
\<close>

definition example_makedirs :: "filesystem \<Rightarrow> string \<Rightarrow> error option \<times> filesystem" where
  "example_makedirs fs p =
     (if p = [] then (Some FileNotFoundError, fs)
      else if rstrip_sep p = [] \<or> fs (rstrip_sep p) \<noteq> None
      then (Some (FileExistsError (''[Errno 17] File exists: '' @ p)), fs)
      else (None, fs(rstrip_sep p \<mapsto> Dir)))"

text \<open>
  \<open>shutil.move(src, dst)\<close> in this file system: into \<open>dst\<close> when it is a directory, under
  the base name of \<open>src\<close>, unless that path exists; onto \<open>dst\<close> otherwise.
\<close>

definition example_move :: "filesystem \<Rightarrow> string \<Rightarrow> string \<Rightarrow> error option \<times> filesystem" where
  "example_move fs src dst =
     (if lookup fs dst = Some Dir \<and> rstrip_sep src = rstrip_sep dst \<and> lookup fs src \<noteq> None
      then (None, fs)
      else
        let real_dst =
              (if lookup fs dst = Some Dir
               then os_path_join dst (os_path_basename (rstrip_sep src))
               else dst)
        in if lookup fs dst = Some Dir \<and> lookup fs real_dst \<noteq> None then (Some ShutilError, fs)
           else case lookup fs src of
                  None \<Rightarrow> (Some FileNotFoundError, fs)
                | Some n \<Rightarrow> (None, fs(rstrip_sep src := None, rstrip_sep real_dst \<mapsto> n)))"

definition example_os :: "filesystem os" where
  "example_os =
     \<lparr>client_write = (\<lambda>fs name. fs(name \<mapsto> File)),
      os_path_exists = (\<lambda>fs p. lookup fs p \<noteq> None),
      os_makedirs = example_makedirs,
      shutil_move = example_move\<rparr>"

text \<open>
  A concrete server for running the cell: two responses with status 202, then status 200;
  the client writes \<open>/tmp/project_id_1.zip\<close>.
\<close>

definition example_api :: "nat \<Rightarrow> response" where
  "example_api k = \<lparr>resp_status = (if k < 2 then 202 else 200), data_name = ''/tmp/project_id_1.zip''\<rparr>"

text \<open>The variables that the configuration cell assigns from \<open>example_export_configuration\<close>.\<close>

definition example_config :: "string \<Rightarrow> export_config" where
  "example_config dir =
     \<lparr>cvat_username = JStr ''django'', cvat_password = JStr ''secret'',
      cvat_project_id = JInt 1, export_format = JStr ''ImageNet 1.0'', export_dir = dir\<rparr>"

section \<open>Natural sort of the file names (quantization notebook)\<close>

text \<open>
  A Python \<open>str\<close> is a sequence of code points; a \<open>char\<close> here is a code point up to
  U+00FF. Among these, the pattern \<open>\d\<close> matches the decimal digits \<open>0\<close> to \<open>9\<close>, while
  \<open>str.isdigit\<close> also accepts the superscripts U+00B2, U+00B3 and U+00B9, which \<open>int\<close>
  rejects.
\<close>

definition is_decimal :: "char \<Rightarrow> bool" where
  "is_decimal c = (48 \<le> (of_char c :: nat) \<and> (of_char c :: nat) \<le> 57)"

definition is_superscript :: "char \<Rightarrow> bool" where
  "is_superscript c = ((of_char c :: nat) = 0xB2 \<or> (of_char c :: nat) = 0xB3 \<or> (of_char c :: nat) = 0xB9)"

text \<open>\<open>text.isdigit()\<close>: the text is not empty and every character is a digit.\<close>

definition isdigit :: "string \<Rightarrow> bool" where
  "isdigit text = (text \<noteq> [] \<and> list_all (\<lambda>c. is_decimal c \<or> is_superscript c) text)"

text \<open>
  \<open>int(text)\<close> for a text that \<open>isdigit\<close> accepts: the value in base 10 when all
  characters are decimal digits, \<open>ValueError\<close> otherwise.
\<close>

definition digit_value :: "char \<Rightarrow> int" where
  "digit_value c = int (of_char c) - 48"

definition decimal_value :: "string \<Rightarrow> int" where
  "decimal_value text = foldl (\<lambda>n c. 10 * n + digit_value c) 0 text"

definition int_of_text :: "string \<Rightarrow> error + int" where
  "int_of_text text =
     (if text \<noteq> [] \<and> list_all is_decimal text then Inr (decimal_value text)
      else Inl ValueError)"

text \<open>An element of a sort key is an \<open>int\<close> or a \<open>str\<close>.\<close>

datatype key = KInt int | KStr string

definition atoi :: "string \<Rightarrow> error + key" where
  "atoi text =
     (if isdigit text then bind_err (int_of_text text) (\<lambda>n. Inr (KInt n)) else Inr (KStr text))"

text \<open>
  \<open>re.split(r"(\d+)", text)\<close>: the text before the first run of decimal digits, the run
  itself (the pattern has a group), and the split of what follows the run; the whole
  text when it has no decimal digit.
\<close>

function re_split :: "string \<Rightarrow> string list" where
  "re_split text =
     (let before = takeWhile (\<lambda>c. \<not> is_decimal c) text;
          rest = dropWhile (\<lambda>c. \<not> is_decimal c) text
      in if rest = [] then [before]
         else before # takeWhile is_decimal rest # re_split (dropWhile is_decimal rest))"
  by pat_completeness auto
termination
proof (relation "measure length")
  show "wf (measure length)" by simp
next
  fix s :: string and before rest
  assume rest: "rest = dropWhile (\<lambda>c. \<not> is_decimal c) s" and ne: "rest \<noteq> []"
  from ne have "is_decimal (hd rest)"
    unfolding rest using hd_dropWhile [of "\<lambda>c. \<not> is_decimal c" s] by simp
  with ne have "length (dropWhile is_decimal rest) < length rest"
    by (cases rest) (simp_all add: le_imp_less_Suc length_dropWhile_le)
  also have "length rest \<le> length s"
    unfolding rest by (rule length_dropWhile_le)
  finally show "(dropWhile is_decimal rest, s) \<in> measure length" by simp
qed

text \<open>A list comprehension \<open>[f(c) for c in xs]\<close> stops at the first exception.\<close>

fun map_err :: "('a \<Rightarrow> error + 'b) \<Rightarrow> 'a list \<Rightarrow> error + 'b list" where
  "map_err f [] = Inr []"
| "map_err f (x # xs) = bind_err (f x) (\<lambda>y. bind_err (map_err f xs) (\<lambda>ys. Inr (y # ys)))"

definition natural_keys :: "string \<Rightarrow> error + key list" where
  "natural_keys text = map_err atoi (re_split text)"

text \<open>
  Python's \<open><\<close>: strings by code points, integers by value, \<open>TypeError\<close> between a string
  and an integer; lists at the first position where the elements are not equal, a proper
  prefix before the longer list.
\<close>

fun str_lt :: "string \<Rightarrow> string \<Rightarrow> bool" where
  "str_lt [] [] = False"
| "str_lt [] (y # ys) = True"
| "str_lt (x # xs) [] = False"
| "str_lt (x # xs) (y # ys) = (if x = y then str_lt xs ys else (of_char x :: nat) < of_char y)"

fun key_lt :: "key \<Rightarrow> key \<Rightarrow> error + bool" where
  "key_lt (KInt a) (KInt b) = Inr (a < b)"
| "key_lt (KStr a) (KStr b) = Inr (str_lt a b)"
| "key_lt (KInt a) (KStr b) = Inl TypeError"
| "key_lt (KStr a) (KInt b) = Inl TypeError"

fun keys_lt :: "key list \<Rightarrow> key list \<Rightarrow> error + bool" where
  "keys_lt [] [] = Inr False"
| "keys_lt [] (y # ys) = Inr True"
| "keys_lt (x # xs) [] = Inr False"
| "keys_lt (x # xs) (y # ys) = (if x = y then keys_lt xs ys else key_lt x y)"

text \<open>
  \<open>sorted(files, key=natural_keys)\<close> computes the key of every element first, then sorts
  by \<open><\<close> on the keys, keeping the order of elements with equal keys. The sort is an
  insertion from the left: an element goes before the first one that is greater.
\<close>

fun insert_by_key :: "key list \<times> string \<Rightarrow> (key list \<times> string) list \<Rightarrow> error + (key list \<times> string) list" where
  "insert_by_key x [] = Inr [x]"
| "insert_by_key x (y # ys) =
     bind_err (keys_lt (fst x) (fst y)) (\<lambda>less.
       if less then Inr (x # y # ys)
       else bind_err (insert_by_key x ys) (\<lambda>zs. Inr (y # zs)))"

fun insert_all :: "(key list \<times> string) list \<Rightarrow> (key list \<times> string) list \<Rightarrow> error + (key list \<times> string) list" where
  "insert_all [] result = Inr result"
| "insert_all (x # xs) result = bind_err (insert_by_key x result) (insert_all xs)"

definition sorted_natural :: "string list \<Rightarrow> error + string list" where
  "sorted_natural files =
     bind_err (map_err (\<lambda>file. bind_err (natural_keys file) (\<lambda>k. Inr (k, file))) files)
       (\<lambda>keyed. bind_err (insert_all keyed []) (\<lambda>result. Inr (map snd result)))"

text \<open>A key list that starts with a string (\<open>s = True\<close>) or an integer and alternates.\<close>

fun alternates :: "bool \<Rightarrow> key list \<Rightarrow> bool" where
  "alternates s [] = True"
| "alternates s (KStr a # ks) = (s \<and> alternates False ks)"
| "alternates s (KInt n # ks) = (\<not> s \<and> alternates True ks)"

section \<open>Top-1 accuracy of a TFLite model (quantization notebook)\<close>

text \<open>
  A test image is the dict with the keys \<open>path\<close> and \<open>imageID\<close>; a prediction is the dict
  with the keys \<open>imageID\<close> and \<open>predictions\<close>. Reading and resizing the file, feeding the
  interpreter and invoking it belong to TensorFlow: \<open>infer p\<close> is the output tensor
  \<open>output()[0]\<close> that the interpreter holds for the image file \<open>p\<close>.
\<close>

record test_image =
  image_path :: string
  imageID :: string

record prediction =
  prediction_imageID :: string
  predictions :: "nat list"

text \<open>\<open>np.argmax\<close>: the first index of the greatest element, \<open>ValueError\<close> on an empty array.\<close>

fun argmax_from :: "'a::linorder \<Rightarrow> nat \<Rightarrow> nat \<Rightarrow> 'a list \<Rightarrow> nat" where
  "argmax_from best pos i [] = pos"
| "argmax_from best pos i (x # xs) =
     (if best < x then argmax_from x i (Suc i) xs else argmax_from best pos (Suc i) xs)"

fun np_argmax :: "'a::linorder list \<Rightarrow> error + nat" where
  "np_argmax [] = Inl ValueError"
| "np_argmax (x # xs) = Inr (argmax_from x 0 1 xs)"

text \<open>The first loop: one prediction for each image, appended in order.\<close>

fun predict_images ::
  "(string \<Rightarrow> 'a::linorder list) \<Rightarrow> test_image list \<Rightarrow> prediction list \<Rightarrow> error + prediction list" where
  "predict_images infer [] acc = Inr acc"
| "predict_images infer (t # ts) acc =
     bind_err (np_argmax (infer (image_path t))) (\<lambda>a.
       predict_images infer ts
         (acc @ [\<lparr>prediction_imageID = imageID t, predictions = [a]\<rparr>]))"

text \<open>
  The second loop, over \<open>range(len(predictions))\<close>: \<open>predictions[index]["predictions"][0]\<close>
  is compared with \<open>ground_truth_ids[index]\<close>; an index outside a list raises
  \<open>IndexError\<close>.
\<close>

fun count_accurate :: "prediction list \<Rightarrow> int list \<Rightarrow> nat list \<Rightarrow> nat \<Rightarrow> error + nat" where
  "count_accurate preds ground_truth_ids [] accurate_count = Inr accurate_count"
| "count_accurate preds ground_truth_ids (index # rest) accurate_count =
     (if length preds \<le> index then Inl IndexError
      else case predictions (preds ! index) of
        [] \<Rightarrow> Inl IndexError
      | a # _ \<Rightarrow>
          if length ground_truth_ids \<le> index then Inl IndexError
          else count_accurate preds ground_truth_ids rest
                 (if int a = ground_truth_ids ! index then accurate_count + 1
                  else accurate_count))"

text \<open>
  \<open>ground_truth_ids\<close> is a global of the notebook. The division by \<open>len(predictions)\<close>
  raises \<open>ZeroDivisionError\<close> for an empty list of images.
\<close>

definition evaluate_tflite_model ::
  "(string \<Rightarrow> 'a::linorder list) \<Rightarrow> int list \<Rightarrow> test_image list \<Rightarrow> error + rat" where
  "evaluate_tflite_model infer ground_truth_ids images =
     bind_err (predict_images infer images []) (\<lambda>preds.
     bind_err (count_accurate preds ground_truth_ids [0..<length preds] 0) (\<lambda>accurate_count.
       if length preds = 0 then Inl ZeroDivisionError
       else Inr (of_nat accurate_count * 1 / of_nat (length preds))))"

text \<open>A concrete interpreter and three test images for running the evaluation.\<close>

definition example_infer :: "string \<Rightarrow> int list" where
  "example_infer p =
     (if p = ''cat/1.jpg'' then [1, 9, 3]
      else if p = ''dog/1.jpg'' then [7, 2, 2]
      else [0, 5, 5])"

definition example_images :: "test_image list" where
  "example_images =
     [\<lparr>image_path = ''cat/1.jpg'', imageID = ''1.jpg''\<rparr>,
      \<lparr>image_path = ''dog/1.jpg'', imageID = ''1.jpg''\<rparr>,
      \<lparr>image_path = ''fox/1.jpg'', imageID = ''1.jpg''\<rparr>]"

text \<open>
  The cell that enumerates the images. \<open>glob.glob\<close> is the parameter \<open>glob\<close>, from the
  pattern to the matching paths; \<open>labels\<close> is the dict read from the label file, from a
  label name to its id. The inner loop appends to \<open>test_images\<close> and to
  \<open>ground_truth_ids\<close> together.
\<close>

definition os_path_dirname :: "string \<Rightarrow> string" where
  "os_path_dirname p =
     (let head = rev (dropWhile (\<lambda>c. c \<noteq> CHR ''/'') (rev p))
      in if head \<noteq> [] \<and> \<not> list_all (\<lambda>c. c = CHR ''/'') head then rstrip_sep head else head)"

fun label_files ::
  "(string \<Rightarrow> int option) \<Rightarrow> string list \<Rightarrow> test_image list \<times> int list \<Rightarrow>
   error + test_image list \<times> int list" where
  "label_files labels [] both = Inr both"
| "label_files labels (file # files) both =
     (let label = os_path_basename (os_path_dirname file)
      in case labels label of
           None \<Rightarrow> Inl (KeyError label)
         | Some label_id \<Rightarrow>
             label_files labels files
               (fst both @ [\<lparr>image_path = file, imageID = os_path_basename file\<rparr>],
                snd both @ [label_id]))"

fun label_folders ::
  "(string \<Rightarrow> string list) \<Rightarrow> string \<Rightarrow> (string \<Rightarrow> int option) \<Rightarrow> string list \<Rightarrow>
   test_image list \<times> int list \<Rightarrow> error + test_image list \<times> int list" where
  "label_folders glob extension labels [] both = Inr both"
| "label_folders glob extension labels (folder # folders) both =
     bind_err (sorted_natural (glob (os_path_join folder extension))) (\<lambda>files_in_folder.
     bind_err (label_files labels files_in_folder both)
       (label_folders glob extension labels folders))"

definition prepare_evaluation ::
  "(string \<Rightarrow> string list) \<Rightarrow> quantize_config \<Rightarrow> (string \<Rightarrow> int option) \<Rightarrow>
   error + test_image list \<times> int list" where
  "prepare_evaluation glob cfg labels =
     bind_err
       (sorted_natural
          (glob (evaluate_image_dir cfg @ ''/**/'' @ evaluate_image_extension cfg)))
       (\<lambda>files_all.
          if length files_all = 0 then Inl FileNotFoundError
          else
            bind_err (sorted_natural (glob (evaluate_image_dir cfg @ ''/*/''))) (\<lambda>folders.
              if length folders = 0 then Inl FileNotFoundError
              else label_folders glob (evaluate_image_extension cfg) labels folders ([], [])))"

section \<open>Properties of the calibration preprocessing\<close>

lemma bind_err_simps:
  "bind_err (Inl e) f = Inl e"
  "bind_err (Inr v) f = f v"
  by (simp_all add: bind_err_def)

lemma np_round_ge_floor: "\<lfloor>q\<rfloor> \<le> np_round q"
  by (simp add: np_round_def Let_def)

lemma np_round_near: "\<bar>of_int (np_round q) - q\<bar> \<le> 1 / 2"
proof -
  have "of_int \<lfloor>q\<rfloor> \<le> q" "q < of_int \<lfloor>q\<rfloor> + 1" by linarith+
  then show ?thesis by (auto simp: np_round_def Let_def)
qed

lemma np_round_lower: "of_int k \<le> q \<Longrightarrow> k \<le> np_round q"
  using np_round_ge_floor [of q] by (meson le_floor_iff order_trans)

lemma its_bounds: "1 \<le> RESIZE_SCALE its \<Longrightarrow> 0 < its \<and> its \<le> 256"
proof -
  assume a: "1 \<le> RESIZE_SCALE its"
  have pos: "0 < its"
  proof (rule ccontr)
    assume "\<not> 0 < its"
    then have "(of_int its :: rat) \<le> 0" by simp
    then have "256 / (of_int its :: rat) \<le> 0" by (simp add: divide_nonneg_nonpos divide_le_0_iff)
    with a show False by (simp add: RESIZE_SCALE_def)
  qed
  then have "(0::rat) < of_int its" by simp
  with a have "(of_int its :: rat) \<le> 256" by (simp add: RESIZE_SCALE_def pos_le_divide_eq)
  then have "its \<le> 256" by linarith
  with pos show ?thesis by simp
qed

lemma scale_size: "its \<noteq> 0 \<Longrightarrow> RESIZE_SCALE its * of_int (SIZE its) = 256"
  by (simp add: RESIZE_SCALE_def SIZE_def)

lemma resize_side_eq:
  assumes "its \<noteq> 0" "0 < shape0 x" "0 < shape1 x"
  shows "resize_side its x = 256 / of_nat (min (shape0 x) (shape1 x))"
proof -
  have "resize_side its x = max (256 / of_nat (shape0 x)) (256 / of_nat (shape1 x))"
    by (simp add: resize_side_def scale_size [OF assms(1)])
  also have "\<dots> = 256 / of_nat (min (shape0 x) (shape1 x))"
  proof (cases "shape0 x \<le> shape1 x")
    case True
    then have "(256::rat) / of_nat (shape1 x) \<le> 256 / of_nat (shape0 x)"
      using assms(2) by (intro divide_left_mono) simp_all
    with True show ?thesis by (simp add: max_def min_def)
  next
    case False
    then have "(256::rat) / of_nat (shape0 x) \<le> 256 / of_nat (shape1 x)"
      using assms(3) by (intro divide_left_mono) simp_all
    with False show ?thesis by (simp add: max_def min_def)
  qed
  finally show ?thesis .
qed

lemma np_round_of_int: "np_round (of_int k) = k"
  by (simp add: np_round_def)

lemma tags_ge:
  assumes "its \<noteq> 0" "0 < shape0 x" "0 < shape1 x"
  shows "256 \<le> height_tag its x" "256 \<le> width_tag its x"
proof -
  let ?m = "min (shape0 x) (shape1 x)"
  have m: "0 < ?m" using assms by simp
  have "(256::rat) * of_nat ?m \<le> 256 * of_nat (shape0 x)" by simp
  then have "(256::rat) \<le> 256 / of_nat ?m * of_nat (shape0 x)"
    using m by (simp add: pos_le_divide_eq)
  then show "256 \<le> height_tag its x"
    unfolding height_tag_def resize_side_eq [OF assms] by (intro np_round_lower) simp
  have "(256::rat) * of_nat ?m \<le> 256 * of_nat (shape1 x)" by simp
  then have "(256::rat) \<le> 256 / of_nat ?m * of_nat (shape1 x)"
    using m by (simp add: pos_le_divide_eq)
  then show "256 \<le> width_tag its x"
    unfolding width_tag_def resize_side_eq [OF assms] by (intro np_round_lower) simp
qed

lemma tags_min:
  assumes "its \<noteq> 0" "0 < shape0 x" "0 < shape1 x"
  shows "min (height_tag its x) (width_tag its x) = 256"
proof (cases "shape0 x \<le> shape1 x")
  case True
  then have "resize_side its x * of_nat (shape0 x) = of_int 256"
    using assms by (simp add: resize_side_eq min_def)
  then have "height_tag its x = 256"
    unfolding height_tag_def using np_round_of_int [of 256] by simp
  with tags_ge(2) [OF assms] show ?thesis by simp
next
  case False
  then have "resize_side its x * of_nat (shape1 x) = of_int 256"
    using assms by (simp add: resize_side_eq min_def)
  then have "width_tag its x = 256"
    unfolding width_tag_def using np_round_of_int [of 256] by simp
  with tags_ge(1) [OF assms] show ?thesis by simp
qed

lemma py_int_half: "0 \<le> k \<Longrightarrow> py_int (of_int k / 2) = k div 2"
  by (simp add: py_int_def floor_divide_of_int_eq [of k 2, simplified])

lemma py_slice_length:
  "0 \<le> a \<Longrightarrow> 0 \<le> n \<Longrightarrow> a + n \<le> int (length xs) \<Longrightarrow> length (py_slice xs a (a + n)) = nat n"
  by (simp add: py_slice_def clip_index_def Let_def min_def) linarith

lemma py_slice_eq:
  "0 \<le> a \<Longrightarrow> 0 \<le> n \<Longrightarrow> a + n \<le> int (length xs) \<Longrightarrow>
   py_slice xs a (a + n) = take (nat n) (drop (nat a) xs)"
proof -
  assume a: "0 \<le> a" "0 \<le> n" "a + n \<le> int (length xs)"
  then have "nat a + nat n \<le> length xs" "nat a \<le> length xs" by linarith+
  with a show ?thesis
    by (simp add: py_slice_def clip_index_def Let_def min_def nat_add_distrib)
qed

lemma set_py_slice: "set (py_slice xs a b) \<subseteq> set xs"
  unfolding py_slice_def Let_def by (meson set_take_subset set_drop_subset order_trans)

lemma nearest_resize_contract: "cv2_contract nearest_resize"
  by (auto simp: cv2_contract_def nearest_resize_def)

text \<open>
  Claim C2. For an image with positive height and width and an input tensor size with
  \<open>RESIZE_SCALE = 256 / input_tensor_size \<ge> 1\<close>, \<open>resize\<close> returns an image of exactly
  that many rows of that many pixels. It scales both dimensions by
  \<open>resize_side = max(RESIZE_SCALE * SIZE / h, RESIZE_SCALE * SIZE / w)\<close>, which is 256
  divided by the smaller of \<open>h\<close> and \<open>w\<close>: each resized dimension is the product of
  \<open>resize_side\<close> and the dimension, rounded to the nearest integer, the smaller of the
  two is 256 and so at least \<open>SIZE\<close>, and \<open>cv2.resize\<close> is called with these two. The
  offsets are half of the excess, and the result is the window of \<open>SIZE\<close> rows and \<open>SIZE\<close>
  columns of the resized image that starts at the offsets. \<open>cv2.resize\<close> is any function
  that meets its contract.
\<close>

theorem resize_returns_square:
  assumes "cv2_contract cv2_resize"
    and "0 < shape0 x" and "0 < shape1 x"
    and "1 \<le> RESIZE_SCALE tensor_size"
  shows "resize_side tensor_size x =
           max (RESIZE_SCALE tensor_size * of_int (SIZE tensor_size) / of_nat (shape0 x))
               (RESIZE_SCALE tensor_size * of_int (SIZE tensor_size) / of_nat (shape1 x)) \<and>
         resize_side tensor_size x = 256 / of_nat (min (shape0 x) (shape1 x)) \<and>
         height_tag tensor_size x = np_round (resize_side tensor_size x * of_nat (shape0 x)) \<and>
         width_tag tensor_size x = np_round (resize_side tensor_size x * of_nat (shape1 x)) \<and>
         \<bar>of_int (height_tag tensor_size x) - resize_side tensor_size x * of_nat (shape0 x)\<bar>
           \<le> 1 / 2 \<and>
         \<bar>of_int (width_tag tensor_size x) - resize_side tensor_size x * of_nat (shape1 x)\<bar>
           \<le> 1 / 2 \<and>
         min (height_tag tensor_size x) (width_tag tensor_size x) = 256 \<and>
         SIZE tensor_size \<le> min (height_tag tensor_size x) (width_tag tensor_size x) \<and>
         (\<exists>resized_img r.
           cv2_resize x (width_tag tensor_size x, height_tag tensor_size x) = Inr resized_img \<and>
           shape0 resized_img = nat (height_tag tensor_size x) \<and>
           (\<forall>row \<in> set resized_img. length row = nat (width_tag tensor_size x)) \<and>
           resize tensor_size cv2_resize x = Inr r \<and>
           shape0 r = nat tensor_size \<and>
           (\<forall>row \<in> set r. length row = nat tensor_size) \<and>
           offset_height tensor_size x =
             (height_tag tensor_size x - SIZE tensor_size) div 2 \<and>
           offset_width tensor_size x =
             (width_tag tensor_size x - SIZE tensor_size) div 2 \<and>
           r = map (\<lambda>row. take (nat (SIZE tensor_size))
                            (drop (nat (offset_width tensor_size x)) row))
                 (take (nat (SIZE tensor_size))
                    (drop (nat (offset_height tensor_size x)) resized_img)))"
proof -
  let ?s = tensor_size
  let ?ht = "height_tag ?s x" and ?wt = "width_tag ?s x"
  let ?oh = "offset_height ?s x" and ?ow = "offset_width ?s x"
  from its_bounds [OF assms(4)] have s: "0 < ?s" "?s \<le> 256" by simp_all
  then have s0: "?s \<noteq> 0" by simp
  from tags_ge [OF s0 assms(2,3)] have tags: "256 \<le> ?ht" "256 \<le> ?wt" .
  with assms(1,2,3) obtain resized_img where
    rs: "cv2_resize x (?wt, ?ht) = Inr resized_img"
    and len: "length resized_img = nat ?ht"
    and rows: "\<forall>row \<in> set resized_img. length row = nat ?wt"
    unfolding cv2_contract_def
    by (metis (no_types, lifting) less_le_trans zero_less_numeral)
  have oh: "?oh = (?ht - ?s) div 2" and ow: "?ow = (?wt - ?s) div 2"
    using s tags py_int_half [of "?ht - ?s"] py_int_half [of "?wt - ?s"]
    by (simp_all add: offset_height_def offset_width_def SIZE_def)
  have oh_rng: "0 \<le> ?oh" "?oh + ?s \<le> int (length resized_img)"
    using s tags len unfolding oh by simp_all
  have ow_rng: "0 \<le> ?ow" "?ow + ?s \<le> ?wt"
    using s tags unfolding ow by simp_all
  define r where "r = map (\<lambda>row. py_slice row ?ow (?ow + SIZE ?s))
                        (py_slice resized_img ?oh (?oh + SIZE ?s))"
  have res: "resize ?s cv2_resize x = Inr r"
    using s0 assms(2,3) rs by (simp add: resize_def bind_err_simps r_def)
  have outer: "py_slice resized_img ?oh (?oh + SIZE ?s) = take (nat ?s) (drop (nat ?oh) resized_img)"
    unfolding SIZE_def using oh_rng s by (intro py_slice_eq) simp_all
  have inner: "py_slice row ?ow (?ow + SIZE ?s) = take (nat ?s) (drop (nat ?ow) row)"
    if "row \<in> set (take (nat ?s) (drop (nat ?oh) resized_img))" for row
  proof -
    from that have "row \<in> set resized_img"
      by (meson in_set_takeD in_set_dropD)
    with rows have "length row = nat ?wt" by simp
    with ow_rng s show ?thesis unfolding SIZE_def by (intro py_slice_eq) simp_all
  qed
  have r_eq: "r = map (\<lambda>row. take (nat (SIZE ?s)) (drop (nat ?ow) row))
                    (take (nat (SIZE ?s)) (drop (nat ?oh) resized_img))"
    unfolding r_def outer using inner by (simp add: SIZE_def)
  have len_r: "shape0 r = nat ?s"
    unfolding r_eq shape0_def using oh_rng s by (simp add: SIZE_def)
  have rows_r: "\<forall>row \<in> set r. length row = nat ?s"
  proof
    fix row assume "row \<in> set r"
    then obtain row' where row': "row' \<in> set resized_img"
      and row: "row = take (nat ?s) (drop (nat ?ow) row')"
      unfolding r_eq SIZE_def by (auto dest!: in_set_takeD in_set_dropD)
    from rows row' have "length row' = nat ?wt" by simp
    with ow_rng s show "length row = nat ?s" unfolding row by simp
  qed
  have side: "resize_side ?s x =
           max (RESIZE_SCALE ?s * of_int (SIZE ?s) / of_nat (shape0 x))
               (RESIZE_SCALE ?s * of_int (SIZE ?s) / of_nat (shape1 x))"
    by (simp add: resize_side_def)
  have side': "resize_side ?s x = 256 / of_nat (min (shape0 x) (shape1 x))"
    by (rule resize_side_eq [OF s0 assms(2,3)])
  have ht: "?ht = np_round (resize_side ?s x * of_nat (shape0 x))"
    and wt: "?wt = np_round (resize_side ?s x * of_nat (shape1 x))"
    by (simp_all add: height_tag_def width_tag_def)
  have hn: "\<bar>of_int ?ht - resize_side ?s x * of_nat (shape0 x)\<bar> \<le> 1 / 2"
    unfolding ht by (rule np_round_near)
  have wn: "\<bar>of_int ?wt - resize_side ?s x * of_nat (shape1 x)\<bar> \<le> 1 / 2"
    unfolding wt by (rule np_round_near)
  have mn: "min ?ht ?wt = 256"
    by (rule tags_min [OF s0 assms(2,3)])
  have ge: "SIZE ?s \<le> min ?ht ?wt" using s tags by (simp add: SIZE_def)
  have len': "shape0 resized_img = nat ?ht" using len by (simp add: shape0_def)
  have "\<exists>resized_img r.
           cv2_resize x (?wt, ?ht) = Inr resized_img \<and>
           shape0 resized_img = nat ?ht \<and>
           (\<forall>row \<in> set resized_img. length row = nat ?wt) \<and>
           resize ?s cv2_resize x = Inr r \<and>
           shape0 r = nat ?s \<and>
           (\<forall>row \<in> set r. length row = nat ?s) \<and>
           ?oh = (?ht - SIZE ?s) div 2 \<and>
           ?ow = (?wt - SIZE ?s) div 2 \<and>
           r = map (\<lambda>row. take (nat (SIZE ?s)) (drop (nat ?ow) row))
                 (take (nat (SIZE ?s)) (drop (nat ?oh) resized_img))"
    using rs len' rows res len_r rows_r oh ow r_eq unfolding SIZE_def
    by (intro exI [of _ resized_img] exI [of _ r] conjI)
  with side side' ht wt hn wn mn ge show ?thesis by (intro conjI)
qed

lemma resize_tags_example:
  "height_tag 224 [[1, 2, 3], [4, 5, 6::nat]] = 256 \<and>
   width_tag 224 [[1, 2, 3], [4, 5, 6::nat]] = 384 \<and>
   offset_height 224 [[1, 2, 3], [4, 5, 6::nat]] = 16 \<and>
   offset_width 224 [[1, 2, 3], [4, 5, 6::nat]] = 80"
  by (simp add: height_tag_def width_tag_def offset_height_def offset_width_def resize_side_def
      RESIZE_SCALE_def SIZE_def shape0_def shape1_def np_round_def py_int_def Let_def)

theorem resize_returns_square_witness:
  "cv2_contract (nearest_resize :: nat image \<Rightarrow> int \<times> int \<Rightarrow> error + nat image) \<and>
   0 < shape0 [[1, 2, 3], [4, 5, 6::nat]] \<and> 0 < shape1 [[1, 2, 3], [4, 5, 6::nat]] \<and>
   1 \<le> RESIZE_SCALE 224 \<and>
   resize_side 224 [[1, 2, 3], [4, 5, 6::nat]] = 128 \<and>
   height_tag 224 [[1, 2, 3], [4, 5, 6::nat]] = 256 \<and>
   width_tag 224 [[1, 2, 3], [4, 5, 6::nat]] = 384 \<and>
   (\<exists>resized_img r.
        nearest_resize [[1, 2, 3], [4, 5, 6::nat]] (384, 256) = Inr resized_img \<and>
        shape0 resized_img = 256 \<and> shape1 resized_img = 384 \<and>
        resize 224 nearest_resize [[1, 2, 3], [4, 5, 6::nat]] = Inr r \<and>
        shape0 r = 224 \<and> shape1 r = 224 \<and>
        r = map (\<lambda>row. take 224 (drop 80 row)) (take 224 (drop 16 resized_img)))"
proof -
  let ?x = "[[1, 2, 3], [4, 5, 6::nat]]"
  have c: "cv2_contract (nearest_resize :: nat image \<Rightarrow> int \<times> int \<Rightarrow> error + nat image)"
    by (rule nearest_resize_contract)
  have h: "0 < shape0 ?x" by (simp add: shape0_def)
  have w: "0 < shape1 ?x" by (simp add: shape1_def)
  have sc: "1 \<le> RESIZE_SCALE 224" by (simp add: RESIZE_SCALE_def)
  note t = resize_returns_square [OF c h w sc]
  have side: "resize_side 224 ?x = 128"
    using t [THEN conjunct2, THEN conjunct1] by (simp add: shape0_def shape1_def)
  have ht: "height_tag 224 ?x = 256"
    using t [THEN conjunct2, THEN conjunct2, THEN conjunct1]
    unfolding side by (simp add: shape0_def np_round_def)
  have wt: "width_tag 224 ?x = 384"
    using t [THEN conjunct2, THEN conjunct2, THEN conjunct2, THEN conjunct1]
    unfolding side by (simp add: shape1_def np_round_def)
  have oh: "(256 - SIZE 224) div 2 = 16" and ow: "(384 - SIZE 224) div 2 = 80"
    and sz: "nat (SIZE 224) = 224"
    by (simp_all add: SIZE_def)
  from t [THEN conjunct2, THEN conjunct2, THEN conjunct2, THEN conjunct2, THEN conjunct2,
      THEN conjunct2, THEN conjunct2, THEN conjunct2, unfolded ht wt oh ow]
  obtain resized_img r where
    r: "nearest_resize ?x (384, 256) = Inr resized_img"
      "shape0 resized_img = nat 256"
      "\<forall>row \<in> set resized_img. length row = nat 384"
      "resize 224 nearest_resize ?x = Inr r"
      "shape0 r = nat 224" "\<forall>row \<in> set r. length row = nat 224"
      "offset_height 224 ?x = 16" "offset_width 224 ?x = 80"
      "r = map (\<lambda>row. take (nat (SIZE 224)) (drop (nat (offset_width 224 ?x)) row))
             (take (nat (SIZE 224)) (drop (nat (offset_height 224 ?x)) resized_img))"
    by blast
  have n: "nat 224 = 224" "nat 256 = 256" "nat 384 = (384::nat)" "nat 16 = 16" "nat 80 = 80"
    by simp_all
  from r(2) have "resized_img \<noteq> []" by (auto simp: shape0_def)
  with r(3) have s1: "shape1 resized_img = 384"
    by (cases resized_img) (simp_all add: shape1_def)
  from r(5) have "r \<noteq> []" by (auto simp: shape0_def)
  with r(6) have s1r: "shape1 r = 224"
    by (cases r) (simp_all add: shape1_def)
  have req: "r = map (\<lambda>row. take 224 (drop 80 row)) (take 224 (drop 16 resized_img))"
    using r(9) unfolding r(7,8) sz n .
  from r(1,2,4,5) s1 s1r req
  have "\<exists>resized_img r.
        nearest_resize ?x (384, 256) = Inr resized_img \<and>
        shape0 resized_img = 256 \<and> shape1 resized_img = 384 \<and>
        resize 224 nearest_resize ?x = Inr r \<and>
        shape0 r = 224 \<and> shape1 r = 224 \<and>
        r = map (\<lambda>row. take 224 (drop 80 row)) (take 224 (drop 16 resized_img))"
    unfolding n by (intro exI [of _ resized_img] exI [of _ r] conjI)
  with c h w sc side ht wt show ?thesis by (intro conjI)
qed

text \<open>
  Claim C8. With \<open>MEAN = STD = 127.5\<close>, \<open>normalization\<close> maps every value \<open>v\<close> of the array
  to \<open>(v - 127.5) / 127.5\<close>; when all values lie in \<open>[0, 255]\<close> all results lie in
  \<open>[-1, 1]\<close>; and 0, 127.5 and 255 are mapped to -1, 0 and 1.
\<close>

theorem normalization_range:
  "MEAN = 127.5 \<and> STD = 127.5 \<and>
   normalization x = map (map (map (\<lambda>v. (v - 127.5) / 127.5))) x \<and>
   ((\<forall>v \<in> set (concat (concat x)). 0 \<le> v \<and> v \<le> 255) \<longrightarrow>
    (\<forall>v \<in> set (concat (concat (normalization x))). - 1 \<le> v \<and> v \<le> 1)) \<and>
   normalization [[[0, 127.5, 255]]] = [[[- 1, 0, 1]]]"
proof -
  have "normalization x = map (map (map (\<lambda>v. (v - 127.5) / 127.5))) x"
    by (simp add: normalization_def MEAN_def STD_def)
  moreover have "\<forall>v \<in> set (concat (concat (normalization x))). - 1 \<le> v \<and> v \<le> 1"
    if "\<forall>v \<in> set (concat (concat x)). 0 \<le> v \<and> v \<le> 255"
    using that by (fastforce simp: normalization_def MEAN_def STD_def)
  moreover have "normalization [[[0, 127.5, 255]]] = [[[- 1, 0, 1]]]"
    by (simp add: normalization_def MEAN_def STD_def)
  ultimately show ?thesis by (simp add: MEAN_def STD_def)
qed

theorem normalization_range_witness:
  "(0::rat) \<le> 51 \<and> (51::rat) \<le> 255 \<and> normalization [[[51]]] = [[[- 3 / 5]]] \<and>
   - 1 \<le> (- 3 / 5 :: rat) \<and> (- 3 / 5 :: rat) \<le> 1"
  using normalization_range [of "[[[51]]]"]
  by (simp add: normalization_def MEAN_def STD_def)

section \<open>Properties of the configuration cells\<close>

lemma bind_err_Inr_iff: "bind_err m f = Inr y \<longleftrightarrow> (\<exists>v. m = Inr v \<and> f v = Inr y)"
  by (cases m) (simp_all add: bind_err_def)

lemma bind_err_Inl_iff:
  "bind_err m f = Inl err \<longleftrightarrow> m = Inl err \<or> (\<exists>v. m = Inr v \<and> f v = Inl err)"
  by (cases m) (simp_all add: bind_err_def)

lemma is_symlink_Inr:
  "is_symlink e p = Inr link \<longleftrightarrow>
     lstat_islnk e p = Inr link \<or>
     (\<not> link \<and> (\<exists>n. lstat_islnk e p = Inl n \<and>
        (n = ENOENT \<or> n = ENOTDIR \<or> n = EBADF \<or> n = ELOOP)))"
  by (auto simp: is_symlink_def split: sum.splits)

lemma is_symlink_Inl:
  "is_symlink e p = Inl err \<longleftrightarrow>
     (\<exists>n. lstat_islnk e p = Inl n \<and> n \<noteq> ENOENT \<and> n \<noteq> ENOTDIR \<and> n \<noteq> EBADF \<and> n \<noteq> ELOOP \<and>
          err = OSError n (strerror e n) p)"
  by (auto simp: is_symlink_def split: sum.splits)

lemma validate_symlink_Inr: "validate_symlink e p = Inr u \<longleftrightarrow> is_symlink e p = Inr False"
  by (auto simp: validate_symlink_def bind_err_Inr_iff)

lemma validate_symlink_Inl:
  "validate_symlink e p = Inl err \<longleftrightarrow>
     is_symlink e p = Inl err \<or>
     is_symlink e p = Inr True \<and>
       err = OSError ELOOP ''Symbolic link is not supported. Please use real folder or file'' p"
  by (auto simp: validate_symlink_def bind_err_Inl_iff)

lemma validate_symlink_ELOOP:
  "(\<exists>msg q. validate_symlink e p = Inl (OSError ELOOP msg q)) \<longleftrightarrow> is_symlink e p = Inr True"
  by (auto simp: validate_symlink_Inl is_symlink_Inl)

lemma validate_symlink_raises_OSError:
  "validate_symlink e p = Inl err \<Longrightarrow> \<exists>n msg q. err = OSError n msg q"
  by (auto simp: validate_symlink_Inl is_symlink_Inl)

lemma path_entry_Inr: "path_entry e cfg k = Inr p \<Longrightarrow> is_symlink e (Path p) = Inr False"
  by (auto simp: path_entry_def bind_err_Inr_iff validate_symlink_Inr)

lemma load_export_paths:
  assumes "load_configurations_export e = Inr cfg"
  shows "is_symlink e (Path ''./configuration.json'') = Inr False"
    and "is_symlink e (Path ''./configuration_schema_export.json'') = Inr False"
    and "is_symlink e (Path (export_dir cfg)) = Inr False"
  using assms unfolding load_configurations_export_def bind_err_Inr_iff validate_symlink_Inr
  by auto

lemma load_quantize_paths:
  assumes "load_configurations_quantize e = Inr cfg"
  shows "is_symlink e (Path ''./configuration.json'') = Inr False"
    and "is_symlink e (Path ''./configuration_schema.json'') = Inr False"
    and "is_symlink e (Path (source_keras_model cfg)) = Inr False"
    and "is_symlink e (Path (dataset_image_dir cfg)) = Inr False"
    and "is_symlink e (Path (output_dir cfg)) = Inr False"
    and "is_symlink e (Path (evaluate_image_dir cfg)) = Inr False"
    and "is_symlink e (Path (evaluate_label_file cfg)) = Inr False"
    and "is_symlink e (Path (evaluate_result_dir cfg)) = Inr False"
  using assms unfolding load_configurations_quantize_def bind_err_Inr_iff validate_symlink_Inr
  by (auto dest: path_entry_Inr)

lemma example_is_symlink:
  "is_symlink (example_env cfg verdict) (Path s) =
     (if 255 < length s then Inl (OSError ENAMETOOLONG ''File name too long'' (Path s))
      else Inr (s = ''./link''))"
  by (simp add: is_symlink_def example_env_def ENAMETOOLONG_def ENOENT_def ENOTDIR_def EBADF_def
      ELOOP_def)

lemma example_validate_symlink:
  "validate_symlink (example_env cfg verdict) (Path s) =
     (if 255 < length s then Inl (OSError ENAMETOOLONG ''File name too long'' (Path s))
      else if s = ''./link''
      then Inl (OSError ELOOP ''Symbolic link is not supported. Please use real folder or file''
                  (Path s))
      else Inr ())"
  unfolding validate_symlink_def example_is_symlink by (simp add: bind_err_simps)

lemma example_env_simps:
  "json_load (example_env cfg verdict) (Path ''./configuration.json'') = Inr cfg"
  "json_load (example_env cfg verdict) (Path ''./configuration_schema_export.json'') = Inr (JObj [])"
  "json_load (example_env cfg verdict) (Path ''./configuration_schema.json'') = Inr (JObj [])"
  "jsonschema_validate (example_env cfg verdict) app_configuration json_schema = verdict"
  "replace_sep (example_env cfg verdict) (JStr s) = Inr s"
  by (simp_all add: example_env_def map_idI)

lemma example_export_loads:
  "load_configurations_export (example_env (example_export_configuration ''./dataset/'') None) =
     Inr \<lparr>cvat_username = JStr ''django'', cvat_password = JStr ''secret'',
          cvat_project_id = JInt 1, export_format = JStr ''ImageNet 1.0'',
          export_dir = ''./dataset/''\<rparr>"
  unfolding load_configurations_export_def example_validate_symlink
  by (simp add: example_env_def example_export_configuration_def validate_def bind_err_simps)

lemma example_quantize_loads:
  "load_configurations_quantize (example_env example_quantize_configuration None) =
     Inr \<lparr>source_keras_model = ''./model'', dataset_image_dir = ''./images'', batch_size = 50,
          input_tensor_size = 224, iteration_count = 10, output_dir = ''./output'',
          evaluate_image_dir = ''./evaluate/images'', evaluate_image_extension = ''*.JPEG'',
          evaluate_label_file = ''./evaluate/labels.json'',
          evaluate_result_dir = ''./evaluate/results''\<rparr>"
  unfolding load_configurations_quantize_def path_entry_def example_validate_symlink
  by (simp add: example_env_def example_quantize_configuration_def validate_def bind_err_simps
      int_entry_def)

text \<open>
  Claim C1, amended. \<open>validate_symlink\<close> raises \<open>OSError\<close> with \<open>errno.ELOOP\<close> exactly when
  \<open>path.is_symlink()\<close> answers \<open>True\<close>, that is when \<open>lstat\<close> finds a symbolic link, and it
  returns normally exactly when \<open>path.is_symlink()\<close> answers \<open>False\<close>: the path is not a
  symbolic link, or \<open>lstat\<close> fails with \<open>ENOENT\<close>, \<open>ENOTDIR\<close>, \<open>EBADF\<close> or \<open>ELOOP\<close>. Any other
  \<open>OSError\<close> of \<open>lstat\<close> leaves \<open>validate_symlink\<close> unchanged, with its own error number.
  The function depends on the path only and has no effect. Hence, when a configuration
  cell completes, \<open>is_symlink()\<close> has answered \<open>False\<close> for the configuration file, the
  schema file and every path taken from the configuration.
\<close>

theorem validate_symlink_rejects_symlinks:
  "(validate_symlink e p =
      Inl (OSError ELOOP ''Symbolic link is not supported. Please use real folder or file'' p))
     = (lstat_islnk e p = Inr True) \<and>
   (\<exists>msg q. validate_symlink e p = Inl (OSError ELOOP msg q)) = (is_symlink e p = Inr True) \<and>
   (validate_symlink e p = Inr ()) = (is_symlink e p = Inr False) \<and>
   (validate_symlink e p = Inr ()) =
     (lstat_islnk e p = Inr False \<or> lstat_islnk e p = Inl ENOENT \<or> lstat_islnk e p = Inl ENOTDIR \<or>
      lstat_islnk e p = Inl EBADF \<or> lstat_islnk e p = Inl ELOOP) \<and>
   (\<forall>n. lstat_islnk e p = Inl n \<and> n \<noteq> ENOENT \<and> n \<noteq> ENOTDIR \<and> n \<noteq> EBADF \<and> n \<noteq> ELOOP \<longrightarrow>
      validate_symlink e p = Inl (OSError n (strerror e n) p)) \<and>
   (\<forall>cfg. load_configurations_export e = Inr cfg \<longrightarrow>
      is_symlink e (Path ''./configuration.json'') = Inr False \<and>
      is_symlink e (Path ''./configuration_schema_export.json'') = Inr False \<and>
      is_symlink e (Path (export_dir cfg)) = Inr False) \<and>
   (\<forall>cfg. load_configurations_quantize e = Inr cfg \<longrightarrow>
      is_symlink e (Path ''./configuration.json'') = Inr False \<and>
      is_symlink e (Path ''./configuration_schema.json'') = Inr False \<and>
      is_symlink e (Path (source_keras_model cfg)) = Inr False \<and>
      is_symlink e (Path (dataset_image_dir cfg)) = Inr False \<and>
      is_symlink e (Path (output_dir cfg)) = Inr False \<and>
      is_symlink e (Path (evaluate_image_dir cfg)) = Inr False \<and>
      is_symlink e (Path (evaluate_label_file cfg)) = Inr False \<and>
      is_symlink e (Path (evaluate_result_dir cfg)) = Inr False)"
proof (intro conjI allI impI)
  show "(validate_symlink e p =
      Inl (OSError ELOOP ''Symbolic link is not supported. Please use real folder or file'' p))
     = (lstat_islnk e p = Inr True)"
    by (auto simp: validate_symlink_Inl is_symlink_Inl is_symlink_Inr)
  show "(\<exists>msg q. validate_symlink e p = Inl (OSError ELOOP msg q)) = (is_symlink e p = Inr True)"
    by (rule validate_symlink_ELOOP)
  show "(validate_symlink e p = Inr ()) = (is_symlink e p = Inr False)"
    by (rule validate_symlink_Inr)
  show "(validate_symlink e p = Inr ()) =
     (lstat_islnk e p = Inr False \<or> lstat_islnk e p = Inl ENOENT \<or> lstat_islnk e p = Inl ENOTDIR \<or>
      lstat_islnk e p = Inl EBADF \<or> lstat_islnk e p = Inl ELOOP)"
    by (auto simp: validate_symlink_Inr is_symlink_Inr)
  show "validate_symlink e p = Inl (OSError n (strerror e n) p)"
    if "lstat_islnk e p = Inl n \<and> n \<noteq> ENOENT \<and> n \<noteq> ENOTDIR \<and> n \<noteq> EBADF \<and> n \<noteq> ELOOP" for n
    using that by (simp add: validate_symlink_Inl is_symlink_Inl)
qed (use load_export_paths [of e] load_quantize_paths [of e] in blast)+

theorem validate_symlink_rejects_symlinks_witness:
  "load_configurations_export (example_env (example_export_configuration ''./dataset/'') None) =
     Inr \<lparr>cvat_username = JStr ''django'', cvat_password = JStr ''secret'',
          cvat_project_id = JInt 1, export_format = JStr ''ImageNet 1.0'',
          export_dir = ''./dataset/''\<rparr> \<and>
   is_symlink (example_env (example_export_configuration ''./dataset/'') None) (Path ''./dataset/'') =
     Inr False \<and>
   validate_symlink (example_env (example_export_configuration ''./dataset/'') None) (Path ''./dataset/'') =
     Inr () \<and>
   lstat_islnk (example_env (example_export_configuration ''./dataset/'') None) (Path ''./link'') =
     Inr True \<and>
   validate_symlink (example_env (example_export_configuration ''./dataset/'') None) (Path ''./link'') =
     Inl (OSError ELOOP ''Symbolic link is not supported. Please use real folder or file''
            (Path ''./link'')) \<and>
   lstat_islnk (example_env (example_export_configuration ''./dataset/'') None)
     (Path (replicate 256 CHR ''a'')) = Inl ENAMETOOLONG \<and>
   validate_symlink (example_env (example_export_configuration ''./dataset/'') None)
     (Path (replicate 256 CHR ''a'')) =
     Inl (OSError ENAMETOOLONG ''File name too long'' (Path (replicate 256 CHR ''a''))) \<and>
   is_symlink (example_env example_quantize_configuration None) (Path ''./evaluate/labels.json'') =
     Inr False"
proof -
  let ?e = "example_env (example_export_configuration ''./dataset/'') None"
  let ?long = "Path (replicate 256 CHR ''a'')"
  note t = validate_symlink_rejects_symlinks
  have l: "lstat_islnk ?e (Path ''./link'') = Inr True"
    by (simp add: example_env_def)
  have n: "lstat_islnk ?e ?long = Inl ENAMETOOLONG"
    by (simp add: example_env_def)
  have ne: "ENAMETOOLONG \<noteq> ENOENT" "ENAMETOOLONG \<noteq> ENOTDIR" "ENAMETOOLONG \<noteq> EBADF"
    "ENAMETOOLONG \<noteq> ELOOP"
    by (simp_all add: ENAMETOOLONG_def ENOENT_def ENOTDIR_def EBADF_def ELOOP_def)
  have se: "strerror ?e ENAMETOOLONG = ''File name too long''"
    by (simp add: example_env_def)
  from t [of ?e "Path ''./link''", THEN conjunct2, THEN conjunct2, THEN conjunct2, THEN conjunct2,
      THEN conjunct2, THEN conjunct1, rule_format, OF example_export_loads]
  have d: "is_symlink ?e (Path ''./dataset/'') = Inr False"
    by simp
  with t [of ?e "Path ''./dataset/''", THEN conjunct2, THEN conjunct2, THEN conjunct1]
  have v: "validate_symlink ?e (Path ''./dataset/'') = Inr ()"
    by simp
  from l t [of ?e "Path ''./link''", THEN conjunct1]
  have k: "validate_symlink ?e (Path ''./link'') =
     Inl (OSError ELOOP ''Symbolic link is not supported. Please use real folder or file''
            (Path ''./link''))"
    by simp
  from t [of ?e ?long, THEN conjunct2, THEN conjunct2, THEN conjunct2, THEN conjunct2,
      THEN conjunct1, rule_format, of ENAMETOOLONG] n ne
  have "validate_symlink ?e ?long = Inl (OSError ENAMETOOLONG (strerror ?e ENAMETOOLONG) ?long)"
    by simp
  then have x: "validate_symlink ?e ?long = Inl (OSError ENAMETOOLONG ''File name too long'' ?long)"
    unfolding se .
  from t [of "example_env example_quantize_configuration None" "Path ''./link''",
      THEN conjunct2, THEN conjunct2, THEN conjunct2, THEN conjunct2, THEN conjunct2,
      THEN conjunct2, rule_format, OF example_quantize_loads]
  have q: "is_symlink (example_env example_quantize_configuration None)
      (Path ''./evaluate/labels.json'') = Inr False"
    by simp
  from example_export_loads d v l k n x q show ?thesis by (intro conjI)
qed

text \<open>
  The claim C1 as stated lets \<open>validate_symlink\<close> return normally for every path that is
  not a symbolic link. The path \<open>./aaa...\<close> with a name of 300 characters is no symbolic
  link, \<open>lstat\<close> fails on it with \<open>ENAMETOOLONG\<close>, and \<open>validate_symlink\<close> raises that
  \<open>OSError\<close>; as the \<open>export_dir\<close> of a configuration it stops the configuration cell.
\<close>

theorem validate_symlink_raises_ENAMETOOLONG:
  "lstat_islnk (example_env (example_export_configuration (''./'' @ replicate 300 CHR ''a'')) None)
     (Path (''./'' @ replicate 300 CHR ''a'')) = Inl ENAMETOOLONG \<and>
   validate_symlink (example_env (example_export_configuration (''./'' @ replicate 300 CHR ''a'')) None)
     (Path (''./'' @ replicate 300 CHR ''a'')) =
     Inl (OSError ENAMETOOLONG ''File name too long'' (Path (''./'' @ replicate 300 CHR ''a''))) \<and>
   validate_symlink (example_env (example_export_configuration (''./'' @ replicate 300 CHR ''a'')) None)
     (Path (''./'' @ replicate 300 CHR ''a'')) \<noteq> Inr () \<and>
   ENAMETOOLONG \<noteq> ELOOP \<and>
   load_configurations_export
     (example_env (example_export_configuration (''./'' @ replicate 300 CHR ''a'')) None) =
     Inl (OSError ENAMETOOLONG ''File name too long'' (Path (''./'' @ replicate 300 CHR ''a'')))"
proof -
  let ?p = "''./'' @ replicate 300 CHR ''a''"
  let ?e = "example_env (example_export_configuration ?p) None"
  have len: "255 < length ?p" by simp
  have "lstat_islnk ?e (Path ?p) = Inl ENAMETOOLONG"
    using len by (simp add: example_env_def)
  moreover have v: "validate_symlink ?e (Path ?p) =
      Inl (OSError ENAMETOOLONG ''File name too long'' (Path ?p))"
    unfolding example_validate_symlink using len by simp
  moreover from v have "validate_symlink ?e (Path ?p) \<noteq> Inr ()" by simp
  moreover have "ENAMETOOLONG \<noteq> ELOOP" by (simp add: ENAMETOOLONG_def ELOOP_def)
  moreover have "load_configurations_export ?e =
      Inl (OSError ENAMETOOLONG ''File name too long'' (Path ?p))"
  proof -
    have c: "validate_symlink ?e (Path ''./configuration.json'') = Inr ()"
      "validate_symlink ?e (Path ''./configuration_schema_export.json'') = Inr ()"
      unfolding example_validate_symlink by simp_all
    have g: "getitem (example_export_configuration ?p) ''export_dir'' = Inr (JStr ?p)"
      by (simp add: example_export_configuration_def)
    show ?thesis
      unfolding load_configurations_export_def c example_env_simps bind_err_simps validate_def g
      by (simp add: bind_err_simps example_export_configuration_def example_env_simps
          example_validate_symlink del: replace_sep.simps)
  qed
  ultimately show ?thesis by (intro conjI)
qed

lemma validate_Some: "jsonschema_validate e i s = Some err \<Longrightarrow> validate e i s = Inl err"
  by (simp add: validate_def)

lemma invalid_export:
  assumes "json_load e (Path ''./configuration.json'') = Inr app_configuration"
    and "json_load e (Path ''./configuration_schema_export.json'') = Inr json_schema"
    and "jsonschema_validate e app_configuration json_schema = Some err"
  shows "\<exists>err'. load_configurations_export e = Inl err' \<and>
           (err' = err \<or>
            (\<exists>n msg p. err' = OSError n msg p \<and>
               (validate_symlink e (Path ''./configuration.json'') = Inl err' \<or>
                validate_symlink e (Path ''./configuration_schema_export.json'') = Inl err')))"
proof (cases "validate_symlink e (Path ''./configuration.json'')")
  case (Inl a)
  then have "load_configurations_export e = Inl a"
    by (simp add: load_configurations_export_def bind_err_simps)
  with Inl validate_symlink_raises_OSError [OF Inl] show ?thesis by blast
next
  case c: (Inr u)
  show ?thesis
  proof (cases "validate_symlink e (Path ''./configuration_schema_export.json'')")
    case (Inl a)
    with c assms(1) have "load_configurations_export e = Inl a"
      by (simp add: load_configurations_export_def bind_err_simps)
    with Inl validate_symlink_raises_OSError [OF Inl] show ?thesis by blast
  next
    case (Inr v)
    with c assms show ?thesis
      by (simp add: load_configurations_export_def bind_err_simps validate_Some)
  qed
qed

lemma invalid_quantize:
  assumes "json_load e (Path ''./configuration.json'') = Inr app_configuration"
    and "json_load e (Path ''./configuration_schema.json'') = Inr json_schema"
    and "jsonschema_validate e app_configuration json_schema = Some err"
  shows "\<exists>err'. load_configurations_quantize e = Inl err' \<and>
           (err' = err \<or>
            (\<exists>n msg p. err' = OSError n msg p \<and>
               (validate_symlink e (Path ''./configuration.json'') = Inl err' \<or>
                validate_symlink e (Path ''./configuration_schema.json'') = Inl err')))"
proof (cases "validate_symlink e (Path ''./configuration.json'')")
  case (Inl a)
  then have "load_configurations_quantize e = Inl a"
    by (simp add: load_configurations_quantize_def bind_err_simps)
  with Inl validate_symlink_raises_OSError [OF Inl] show ?thesis by blast
next
  case c: (Inr u)
  show ?thesis
  proof (cases "validate_symlink e (Path ''./configuration_schema.json'')")
    case (Inl a)
    with c assms(1) have "load_configurations_quantize e = Inl a"
      by (simp add: load_configurations_quantize_def bind_err_simps)
    with Inl validate_symlink_raises_OSError [OF Inl] show ?thesis by blast
  next
    case (Inr v)
    with c assms show ?thesis
      by (simp add: load_configurations_quantize_def bind_err_simps validate_Some)
  qed
qed

text \<open>
  Claim C5. In both notebooks \<open>jsonschema.validate\<close> runs before any value is taken from
  the configuration: when the loaded configuration fails its schema, the configuration
  cell raises (the validation error, or the \<open>OSError\<close> that \<open>validate_symlink\<close> raised
  before it for the configuration file or the schema file), it produces no configuration
  variable, and no later cell runs: the export notebook leaves the file system untouched
  with an empty trace, and the quantization notebook never reaches its later steps.
\<close>

theorem invalid_configuration_stops_notebook:
  "(json_load e (Path ''./configuration.json'') = Inr app_configuration \<and>
    json_load e (Path ''./configuration_schema_export.json'') = Inr json_schema \<and>
    jsonschema_validate e app_configuration json_schema = Some err \<longrightarrow>
      (\<exists>err'. (err' = err \<or>
                (\<exists>n msg p. err' = OSError n msg p \<and>
                   (validate_symlink e (Path ''./configuration.json'') = Inl err' \<or>
                    validate_symlink e (Path ''./configuration_schema_export.json'') = Inl err'))) \<and>
         load_configurations_export e = Inl err' \<and>
         run_export_notebook e os api fs = Some (Some err', fs, []))) \<and>
   (json_load e (Path ''./configuration.json'') = Inr app_configuration \<and>
    json_load e (Path ''./configuration_schema.json'') = Inr json_schema \<and>
    jsonschema_validate e app_configuration json_schema = Some err \<longrightarrow>
      (\<exists>err'. (err' = err \<or>
                (\<exists>n msg p. err' = OSError n msg p \<and>
                   (validate_symlink e (Path ''./configuration.json'') = Inl err' \<or>
                    validate_symlink e (Path ''./configuration_schema.json'') = Inl err'))) \<and>
         load_configurations_quantize e = Inl err' \<and>
         run_quantize_notebook e steps = Inl err'))"
proof (intro conjI impI)
  assume "json_load e (Path ''./configuration.json'') = Inr app_configuration \<and>
    json_load e (Path ''./configuration_schema_export.json'') = Inr json_schema \<and>
    jsonschema_validate e app_configuration json_schema = Some err"
  then obtain err' where l: "load_configurations_export e = Inl err'"
    and o: "err' = err \<or>
       (\<exists>n msg p. err' = OSError n msg p \<and>
          (validate_symlink e (Path ''./configuration.json'') = Inl err' \<or>
           validate_symlink e (Path ''./configuration_schema_export.json'') = Inl err'))"
    using invalid_export [of e app_configuration json_schema err] by blast
  from l have "run_export_notebook e os api fs = Some (Some err', fs, [])"
    by (simp add: run_export_notebook_def)
  with l o show "\<exists>err'. (err' = err \<or>
                (\<exists>n msg p. err' = OSError n msg p \<and>
                   (validate_symlink e (Path ''./configuration.json'') = Inl err' \<or>
                    validate_symlink e (Path ''./configuration_schema_export.json'') = Inl err'))) \<and>
         load_configurations_export e = Inl err' \<and>
         run_export_notebook e os api fs = Some (Some err', fs, [])"
    by (intro exI [of _ err'] conjI)
next
  assume "json_load e (Path ''./configuration.json'') = Inr app_configuration \<and>
    json_load e (Path ''./configuration_schema.json'') = Inr json_schema \<and>
    jsonschema_validate e app_configuration json_schema = Some err"
  then obtain err' where l: "load_configurations_quantize e = Inl err'"
    and o: "err' = err \<or>
       (\<exists>n msg p. err' = OSError n msg p \<and>
          (validate_symlink e (Path ''./configuration.json'') = Inl err' \<or>
           validate_symlink e (Path ''./configuration_schema.json'') = Inl err'))"
    using invalid_quantize [of e app_configuration json_schema err] by blast
  from l have "run_quantize_notebook e steps = Inl err'"
    by (simp add: run_quantize_notebook_def bind_err_simps)
  with l o show "\<exists>err'. (err' = err \<or>
                (\<exists>n msg p. err' = OSError n msg p \<and>
                   (validate_symlink e (Path ''./configuration.json'') = Inl err' \<or>
                    validate_symlink e (Path ''./configuration_schema.json'') = Inl err'))) \<and>
         load_configurations_quantize e = Inl err' \<and>
         run_quantize_notebook e steps = Inl err'"
    by (intro exI [of _ err'] conjI)
qed

theorem invalid_configuration_stops_notebook_witness:
  "load_configurations_export (example_env (example_export_configuration ''./dataset/'') (Some ValidationError)) =
     Inl ValidationError \<and>
   run_export_notebook (example_env (example_export_configuration ''./dataset/'') (Some ValidationError))
     example_os (\<lambda>n. \<lparr>resp_status = 200, data_name = ''/tmp/a.zip''\<rparr>) Map.empty =
     Some (Some ValidationError, Map.empty, []) \<and>
   load_configurations_quantize (example_env (example_export_configuration ''./dataset/'') (Some ValidationError)) =
     Inl ValidationError \<and>
   run_quantize_notebook (example_env (example_export_configuration ''./dataset/'') (Some ValidationError))
     (\<lambda>cfg. Inr (batch_size cfg)) = Inl ValidationError"
proof -
  let ?e = "example_env (example_export_configuration ''./dataset/'') (Some ValidationError)"
  have a: "json_load ?e (Path ''./configuration.json'') = Inr (example_export_configuration ''./dataset/'')"
    and b: "json_load ?e (Path ''./configuration_schema_export.json'') = Inr (JObj [])"
    and b': "json_load ?e (Path ''./configuration_schema.json'') = Inr (JObj [])"
    and c: "jsonschema_validate ?e (example_export_configuration ''./dataset/'') (JObj []) = Some ValidationError"
    by (simp_all add: example_env_def)
  have x: "load_configurations_export ?e = Inl ValidationError"
    unfolding load_configurations_export_def example_validate_symlink
    by (simp add: example_env_def validate_def bind_err_simps)
  have q: "load_configurations_quantize ?e = Inl ValidationError"
    unfolding load_configurations_quantize_def example_validate_symlink
    by (simp add: example_env_def validate_def bind_err_simps)
  from invalid_configuration_stops_notebook
    [of ?e "example_export_configuration ''./dataset/''" "JObj []" ValidationError
      example_os "\<lambda>n. \<lparr>resp_status = 200, data_name = ''/tmp/a.zip''\<rparr>" Map.empty
      "\<lambda>cfg. Inr (batch_size cfg)"]
    a b b' c x q
  show ?thesis by auto
qed
section \<open>Properties of the download cell\<close>

lemma after_passes_0: "after_passes os api cfg filename 0 s = s"
  by (simp add: after_passes_def)

lemma after_passes_Suc:
  "after_passes os api cfg filename (Suc n) s =
     loop_body os api cfg filename (after_passes os api cfg filename n s)"
  by (simp add: after_passes_def)

lemma after_passes_Suc_first:
  "after_passes os api cfg filename (Suc n) s =
     after_passes os api cfg filename n (loop_body os api cfg filename s)"
  by (simp add: after_passes_def funpow_swap1)

lemma loop_body_calls: "calls (loop_body os api cfg filename s) = Suc (calls s)"
  by (simp add: loop_body_def Let_def)

lemma loop_body_status: "status (loop_body os api cfg filename s) = resp_status (api (calls s))"
  by (simp add: loop_body_def Let_def)

lemma loop_body_temp_filepath:
  "temp_filepath (loop_body os api cfg filename s) = data_name (api (calls s))"
  by (simp add: loop_body_def Let_def)

lemma loop_body_fsys:
  "fsys (loop_body os api cfg filename s) = client_write os (fsys s) (data_name (api (calls s)))"
  by (simp add: loop_body_def Let_def)

lemma loop_body_trace:
  "trace (loop_body os api cfg filename s) =
     trace s @
       [RetrieveDataset (cvat_project_id cfg) ''download'' filename (export_format cfg),
        Print (if resp_status (api (calls s)) \<noteq> 200 \<and> resp_status (api (calls s)) \<noteq> 201
               then CHR 0x0D # ''Dataset is downloading now.'' @ wt_list ! wt_count s
               else CHR 0x0A # ''Dataset is downloaded.''),
        Sleep 1]"
  by (simp add: loop_body_def Let_def)

lemma calls_after_passes: "calls (after_passes os api cfg filename n s) = calls s + n"
  by (induction n) (simp_all add: after_passes_0 after_passes_Suc loop_body_calls)

lemma status_after_passes:
  "status (after_passes os api cfg filename (Suc n) s) = resp_status (api (calls s + n))"
  by (simp add: after_passes_Suc loop_body_status calls_after_passes)

lemma temp_filepath_after_passes:
  "temp_filepath (after_passes os api cfg filename (Suc n) s) = data_name (api (calls s + n))"
  by (simp add: after_passes_Suc loop_body_temp_filepath calls_after_passes)

lemma no_move_after_passes:
  "(\<forall>a b. Move a b \<notin> set (trace s)) \<Longrightarrow>
   (\<forall>a b. Move a b \<notin> set (trace (after_passes os api cfg filename n s)))"
  by (induction n) (simp_all add: after_passes_0 after_passes_Suc loop_body_trace)

lemma download_loop_skip:
  "(\<forall>k<n. status (after_passes os api cfg filename k s) \<noteq> 200 \<and>
           status (after_passes os api cfg filename k s) \<noteq> 201) \<Longrightarrow>
   download_loop os api cfg filename s =
     download_loop os api cfg filename (after_passes os api cfg filename n s)"
proof (induction n)
  case 0
  show ?case by (simp add: after_passes_0)
next
  case (Suc n)
  then have "download_loop os api cfg filename s =
     download_loop os api cfg filename (after_passes os api cfg filename n s)"
    by simp
  also from Suc.prems have "\<dots> =
     download_loop os api cfg filename (loop_body os api cfg filename (after_passes os api cfg filename n s))"
    by (subst download_loop.simps) simp
  finally show ?case by (simp add: after_passes_Suc)
qed

lemma download_loop_stops:
  assumes "\<forall>k<n. status (after_passes os api cfg filename k s) \<noteq> 200 \<and>
           status (after_passes os api cfg filename k s) \<noteq> 201"
    and "status (after_passes os api cfg filename n s) = 200 \<or>
         status (after_passes os api cfg filename n s) = 201"
  shows "download_loop os api cfg filename s = Some (after_passes os api cfg filename n s)"
proof -
  have "download_loop os api cfg filename (after_passes os api cfg filename n s) =
          Some (after_passes os api cfg filename n s)"
    using assms(2) by (subst download_loop.simps) auto
  with download_loop_skip [OF assms(1)] show ?thesis by simp
qed

lemma download_loop_Some_stops:
  "download_loop os api cfg filename s = Some s' \<Longrightarrow>
   \<exists>n. s' = after_passes os api cfg filename n s \<and>
       (status s' = 200 \<or> status s' = 201) \<and>
       (\<forall>k<n. status (after_passes os api cfg filename k s) \<noteq> 200 \<and>
              status (after_passes os api cfg filename k s) \<noteq> 201)"
proof (induction rule: download_loop.raw_induct [rotated 1, consumes 1])
  case (1 download_loop os api cfg filename s s')
  show ?case
  proof (cases "status s \<noteq> 200 \<and> status s \<noteq> 201")
    case True
    with 1(2) have "download_loop os api cfg filename (loop_body os api cfg filename s) = Some s'"
      by simp
    from 1(1) [OF this]
    obtain n where n: "s' = after_passes os api cfg filename n (loop_body os api cfg filename s)"
      "status s' = 200 \<or> status s' = 201"
      "\<forall>k<n. status (after_passes os api cfg filename k (loop_body os api cfg filename s)) \<noteq> 200 \<and>
              status (after_passes os api cfg filename k (loop_body os api cfg filename s)) \<noteq> 201"
      by blast
    have "\<forall>k<Suc n. status (after_passes os api cfg filename k s) \<noteq> 200 \<and>
              status (after_passes os api cfg filename k s) \<noteq> 201"
    proof (intro allI impI)
      fix k assume "k < Suc n"
      then show "status (after_passes os api cfg filename k s) \<noteq> 200 \<and>
              status (after_passes os api cfg filename k s) \<noteq> 201"
        using True n(3) by (cases k) (simp_all add: after_passes_0 after_passes_Suc_first)
    qed
    with n(1,2) show ?thesis
      by (intro exI [of _ "Suc n"]) (simp add: after_passes_Suc_first)
  next
    case False
    with 1 have "s' = s" by auto
    with False show ?thesis by (intro exI [of _ 0]) (auto simp: after_passes_0)
  qed
qed

lemma download_loop_never_stops:
  assumes "\<forall>n. status (after_passes os api cfg filename n s) \<noteq> 200 \<and>
               status (after_passes os api cfg filename n s) \<noteq> 201"
  shows "download_loop os api cfg filename s = None"
proof (cases "download_loop os api cfg filename s")
  case None
  then show ?thesis .
next
  case (Some s')
  from download_loop_Some_stops [OF Some] assms show ?thesis by metis
qed


lemma initial_state_simps:
  "status (initial_state fs) = 0" "calls (initial_state fs) = 0"
  "trace (initial_state fs) = [ListProjects]" "fsys (initial_state fs) = fs"
  "wt_count (initial_state fs) = 0" "temp_filepath (initial_state fs) = []"
  by (simp_all add: initial_state_def)

lemma initial_polls:
  assumes "\<forall>k<n. resp_status (api k) \<noteq> 200 \<and> resp_status (api k) \<noteq> 201"
  shows "\<forall>k<Suc n. status (after_passes os api cfg filename k (initial_state fs)) \<noteq> 200 \<and>
                   status (after_passes os api cfg filename k (initial_state fs)) \<noteq> 201"
proof (intro allI impI)
  fix k assume "k < Suc n"
  then show "status (after_passes os api cfg filename k (initial_state fs)) \<noteq> 200 \<and>
             status (after_passes os api cfg filename k (initial_state fs)) \<noteq> 201"
    using assms
    by (cases k) (simp_all add: after_passes_0 status_after_passes initial_state_simps)
qed

lemma download_loop_first_success:
  assumes "\<forall>k<n. resp_status (api k) \<noteq> 200 \<and> resp_status (api k) \<noteq> 201"
    and "resp_status (api n) = 200 \<or> resp_status (api n) = 201"
  shows "download_loop os api cfg filename (initial_state fs) =
           Some (after_passes os api cfg filename (Suc n) (initial_state fs))"
  using assms(2)
  by (intro download_loop_stops initial_polls [OF assms(1)])
     (simp add: status_after_passes initial_state_simps)

lemma download_loop_no_success:
  assumes "\<forall>k. resp_status (api k) \<noteq> 200 \<and> resp_status (api k) \<noteq> 201"
  shows "download_loop os api cfg filename (initial_state fs) = None"
proof (rule download_loop_never_stops, intro allI)
  fix n
  from assms have "\<forall>k<n. resp_status (api k) \<noteq> 200 \<and> resp_status (api k) \<noteq> 201" by simp
  from initial_polls [OF this, where os = os and cfg = cfg and filename = filename and fs = fs]
  show "status (after_passes os api cfg filename n (initial_state fs)) \<noteq> 200 \<and>
        status (after_passes os api cfg filename n (initial_state fs)) \<noteq> 201"
    by blast
qed

lemma download_loop_returns:
  assumes "download_loop os api cfg filename (initial_state fs) = Some s"
  shows "\<exists>n. (resp_status (api n) = 200 \<or> resp_status (api n) = 201) \<and>
             (\<forall>k<n. resp_status (api k) \<noteq> 200 \<and> resp_status (api k) \<noteq> 201) \<and>
             s = after_passes os api cfg filename (Suc n) (initial_state fs)"
proof -
  from download_loop_Some_stops [OF assms] obtain m where
    m: "s = after_passes os api cfg filename m (initial_state fs)"
      "status s = 200 \<or> status s = 201"
      "\<forall>k<m. status (after_passes os api cfg filename k (initial_state fs)) \<noteq> 200 \<and>
              status (after_passes os api cfg filename k (initial_state fs)) \<noteq> 201"
    by blast
  have "m \<noteq> 0"
  proof
    assume "m = 0"
    with m(1) have "status s = 0" by (simp add: after_passes_0 initial_state_simps)
    with m(2) show False by simp
  qed
  then obtain n where n: "m = Suc n" by (cases m) simp_all
  have "\<forall>k<n. resp_status (api k) \<noteq> 200 \<and> resp_status (api k) \<noteq> 201"
  proof (intro allI impI)
    fix k assume "k < n"
    then have "Suc k < m" using n by simp
    with m(3) show "resp_status (api k) \<noteq> 200 \<and> resp_status (api k) \<noteq> 201"
      by (metis status_after_passes initial_state_simps(2) add_0)
  qed
  moreover from m(1,2) have "resp_status (api n) = 200 \<or> resp_status (api n) = 201"
    unfolding n by (simp add: status_after_passes initial_state_simps)
  ultimately show ?thesis using m(1) n by blast
qed

lemma move_dataset_trace:
  "\<exists>post. trace (snd (move_dataset os dir filename s)) = trace s @ post \<and>
          set post \<subseteq> {Makedirs dir, Move (temp_filepath s) dir,
                        Print ''Dataset moved. Download process is completed.''}"
  by (auto simp: move_dataset_def makedirs_if_missing_def move_if_absent_def
      split: prod.splits option.splits)

text \<open>
  Claim C3. The temporary file is moved only after a call of \<open>retrieve_dataset\<close> has
  returned status 200 or 201. While the first \<open>n\<close> responses are all different from 200
  and 201, the loop is still polling after \<open>n\<close> passes (its next step is another pass)
  and no move has happened; when no response is ever 200 or 201 the cell never ends;
  and a move in the trace of a finished cell comes after the passes of the loop, the
  last of which received status 200 or 201.
\<close>

theorem move_only_after_success:
  "((\<forall>k<n. resp_status (api k) \<noteq> 200 \<and> resp_status (api k) \<noteq> 201) \<longrightarrow>
      status (after_passes os api cfg filename n (initial_state fs)) \<noteq> 200 \<and>
      status (after_passes os api cfg filename n (initial_state fs)) \<noteq> 201 \<and>
      download_loop os api cfg filename (initial_state fs) =
        download_loop os api cfg filename
          (loop_body os api cfg filename (after_passes os api cfg filename n (initial_state fs))) \<and>
      (\<forall>a b. Move a b \<notin> set (trace (after_passes os api cfg filename n (initial_state fs))))) \<and>
   ((\<forall>k. resp_status (api k) \<noteq> 200 \<and> resp_status (api k) \<noteq> 201) \<longrightarrow>
      download_dataset e os cfg api fs = None) \<and>
   (\<forall>r s a b. download_dataset e os cfg api fs = Some (r, s) \<and> Move a b \<in> set (trace s) \<longrightarrow>
      (\<exists>m post.
         (resp_status (api m) = 200 \<or> resp_status (api m) = 201) \<and>
         (\<forall>k<m. resp_status (api k) \<noteq> 200 \<and> resp_status (api k) \<noteq> 201) \<and>
         trace s =
           trace (after_passes os api cfg (dataset_filename e cfg) (Suc m) (initial_state fs)) @ post \<and>
         Move a b \<in> set post))"
proof (intro conjI impI allI)
  assume bad: "\<forall>k<n. resp_status (api k) \<noteq> 200 \<and> resp_status (api k) \<noteq> 201"
  from initial_polls [OF bad]
  have polls: "\<forall>k<Suc n. status (after_passes os api cfg filename k (initial_state fs)) \<noteq> 200 \<and>
                   status (after_passes os api cfg filename k (initial_state fs)) \<noteq> 201" .
  then show "status (after_passes os api cfg filename n (initial_state fs)) \<noteq> 200"
    and "status (after_passes os api cfg filename n (initial_state fs)) \<noteq> 201"
    by simp_all
  from download_loop_skip [OF polls]
  show "download_loop os api cfg filename (initial_state fs) =
        download_loop os api cfg filename
          (loop_body os api cfg filename (after_passes os api cfg filename n (initial_state fs)))"
    by (simp add: after_passes_Suc)
  show "Move a b \<notin> set (trace (after_passes os api cfg filename n (initial_state fs)))" for a b
    using no_move_after_passes [of "initial_state fs" os api cfg filename n]
    by (simp add: initial_state_simps)
next
  assume "\<forall>k. resp_status (api k) \<noteq> 200 \<and> resp_status (api k) \<noteq> 201"
  from download_loop_no_success [OF this]
  show "download_dataset e os cfg api fs = None"
    by (simp add: download_dataset_def)
next
  fix r s a b
  assume a: "download_dataset e os cfg api fs = Some (r, s) \<and> Move a b \<in> set (trace s)"
  let ?fn = "dataset_filename e cfg"
  from a obtain s0 where s0: "download_loop os api cfg ?fn (initial_state fs) = Some s0"
    and mv: "move_dataset os (export_dir cfg) ?fn s0 = (r, s)"
    by (auto simp: download_dataset_def)
  from download_loop_returns [OF s0] obtain m where
    m: "resp_status (api m) = 200 \<or> resp_status (api m) = 201"
      "\<forall>k<m. resp_status (api k) \<noteq> 200 \<and> resp_status (api k) \<noteq> 201"
      "s0 = after_passes os api cfg ?fn (Suc m) (initial_state fs)"
    by blast
  from move_dataset_trace [of os "export_dir cfg" ?fn s0] mv
  obtain post where post: "trace s = trace s0 @ post" by auto
  have "Move a b \<notin> set (trace s0)"
    unfolding m(3) using no_move_after_passes [of "initial_state fs" os api cfg ?fn "Suc m"]
    by (simp add: initial_state_simps)
  with a post have "Move a b \<in> set post" by auto
  with m post show "\<exists>m post.
         (resp_status (api m) = 200 \<or> resp_status (api m) = 201) \<and>
         (\<forall>k<m. resp_status (api k) \<noteq> 200 \<and> resp_status (api k) \<noteq> 201) \<and>
         trace s =
           trace (after_passes os api cfg (dataset_filename e cfg) (Suc m) (initial_state fs)) @ post \<and>
         Move a b \<in> set post"
    by blast
qed


lemma example_api_polls:
  "\<forall>k<2. resp_status (example_api k) \<noteq> 200 \<and> resp_status (example_api k) \<noteq> 201"
  by (simp add: example_api_def)

lemma example_api_succeeds: "resp_status (example_api 2) = 200 \<or> resp_status (example_api 2) = 201"
  by (simp add: example_api_def)

lemma example_filename:
  "dataset_filename (example_env c v) (example_config dir) = ''project_id_1.zip''"
  by (simp add: dataset_filename_def example_env_def example_config_def)

lemma example_loop:
  "download_loop example_os example_api (example_config dir) ''project_id_1.zip'' (initial_state fs) =
     Some (after_passes example_os example_api (example_config dir) ''project_id_1.zip'' 3 (initial_state fs))"
  using download_loop_first_success [OF example_api_polls example_api_succeeds]
  by (simp add: eval_nat_numeral)

lemma example_after_passes:
  "after_passes example_os example_api (example_config dir) ''project_id_1.zip'' 3 (initial_state fs) =
     \<lparr>status = 200, temp_filepath = ''/tmp/project_id_1.zip'', wt_count = 3, calls = 3,
      fsys = fs(''/tmp/project_id_1.zip'' \<mapsto> File),
      trace =
        [ListProjects,
         RetrieveDataset (JInt 1) ''download'' ''project_id_1.zip'' (JStr ''ImageNet 1.0''),
         Print (CHR 0x0D # ''Dataset is downloading now..''),
         Sleep 1,
         RetrieveDataset (JInt 1) ''download'' ''project_id_1.zip'' (JStr ''ImageNet 1.0''),
         Print (CHR 0x0D # ''Dataset is downloading now...''),
         Sleep 1,
         RetrieveDataset (JInt 1) ''download'' ''project_id_1.zip'' (JStr ''ImageNet 1.0''),
         Print (CHR 0x0A # ''Dataset is downloaded.''),
         Sleep 1]\<rparr>"
  by (simp add: after_passes_def eval_nat_numeral loop_body_def Let_def initial_state_def
      example_api_def wt_list_def wt_len_def example_config_def example_os_def)

lemma example_download:
  "download_dataset (example_env c v) example_os (example_config ''./dataset/'') example_api Map.empty =
     Some (None,
       \<lparr>status = 200, temp_filepath = ''/tmp/project_id_1.zip'', wt_count = 3, calls = 3,
        fsys = [''./dataset'' \<mapsto> Dir, ''./dataset/project_id_1.zip'' \<mapsto> File],
        trace =
          [ListProjects,
           RetrieveDataset (JInt 1) ''download'' ''project_id_1.zip'' (JStr ''ImageNet 1.0''),
           Print (CHR 0x0D # ''Dataset is downloading now..''),
           Sleep 1,
           RetrieveDataset (JInt 1) ''download'' ''project_id_1.zip'' (JStr ''ImageNet 1.0''),
           Print (CHR 0x0D # ''Dataset is downloading now...''),
           Sleep 1,
           RetrieveDataset (JInt 1) ''download'' ''project_id_1.zip'' (JStr ''ImageNet 1.0''),
           Print (CHR 0x0A # ''Dataset is downloaded.''),
           Sleep 1,
           Makedirs ''./dataset/'',
           Move ''/tmp/project_id_1.zip'' ''./dataset/'',
           Print ''Dataset moved. Download process is completed.'']\<rparr>)"
proof -
  have d: "export_dir (example_config ''./dataset/'') = ''./dataset/''"
    by (simp add: example_config_def)
  show ?thesis
    unfolding download_dataset_def example_filename example_loop example_after_passes d
    by (simp add: move_dataset_def makedirs_if_missing_def move_if_absent_def example_os_def
      example_makedirs_def example_move_def lookup_def Let_def os_path_join_def
      os_path_basename_def rstrip_sep_def)
qed

theorem move_only_after_success_witness:
  "status (after_passes example_os example_api (example_config ''./dataset/'') ''project_id_1.zip'' 2
            (initial_state Map.empty)) = 202 \<and>
   Move ''/tmp/project_id_1.zip'' ''./dataset/'' \<notin>
     set (trace (after_passes example_os example_api (example_config ''./dataset/'') ''project_id_1.zip'' 2
            (initial_state Map.empty))) \<and>
   download_dataset (example_env JNull None) example_os (example_config ''./dataset/'')
     (\<lambda>k. \<lparr>resp_status = 202, data_name = ''/tmp/project_id_1.zip''\<rparr>) Map.empty = None \<and>
   (\<exists>s. download_dataset (example_env JNull None) example_os (example_config ''./dataset/'') example_api
          Map.empty = Some (None, s) \<and>
        Move ''/tmp/project_id_1.zip'' ''./dataset/'' \<in> set (trace s)) \<and>
   (\<exists>m. resp_status (example_api m) = 200 \<and> resp_status (example_api (m - 1)) = 202)"
proof -
  let ?c = "example_config ''./dataset/''" and ?e = "example_env JNull None"
  let ?never = "\<lambda>k::nat. \<lparr>resp_status = 202, data_name = ''/tmp/project_id_1.zip''\<rparr>"
  note t = move_only_after_success
  have st: "status (after_passes example_os example_api ?c ''project_id_1.zip'' 2 (initial_state Map.empty)) = 202"
    by (simp add: after_passes_def eval_nat_numeral loop_body_def Let_def example_api_def
        initial_state_def)
  from t [where n = 2 and api = example_api and os = example_os and cfg = ?c
      and filename = "''project_id_1.zip''" and fs = Map.empty] example_api_polls
  have nm: "Move ''/tmp/project_id_1.zip'' ''./dataset/'' \<notin>
     set (trace (after_passes example_os example_api ?c ''project_id_1.zip'' 2 (initial_state Map.empty)))"
    by blast
  have "\<forall>k. resp_status (?never k) \<noteq> 200 \<and> resp_status (?never k) \<noteq> 201" by simp
  with t [where n = 0 and api = ?never and os = example_os and cfg = ?c
      and filename = "''project_id_1.zip''" and fs = Map.empty and e = ?e]
  have nv: "download_dataset ?e example_os ?c ?never Map.empty = None" by blast
  from example_download [of JNull None] obtain s where
    s: "download_dataset ?e example_os ?c example_api Map.empty = Some (None, s)"
      "Move ''/tmp/project_id_1.zip'' ''./dataset/'' \<in> set (trace s)"
    by simp
  with t [where n = 0 and api = example_api and os = example_os and cfg = ?c
      and filename = "''project_id_1.zip''" and fs = Map.empty and e = ?e] obtain m where
    m: "resp_status (example_api m) = 200 \<or> resp_status (example_api m) = 201"
      "\<forall>k<m. resp_status (example_api k) \<noteq> 200 \<and> resp_status (example_api k) \<noteq> 201"
    by blast
  then have "m = 2"
    by (cases "m < 2") (auto simp: example_api_def split: if_splits intro: ccontr)
  then have "resp_status (example_api m) = 200 \<and> resp_status (example_api (m - 1)) = 202"
    by (simp add: example_api_def)
  with st nm nv s show ?thesis by blast
qed


lemma wt_count_after_passes:
  "wt_count (after_passes os api cfg filename n (initial_state fs)) = n mod wt_len"
proof (induction n)
  case 0
  show ?case by (simp add: after_passes_0 initial_state_simps)
next
  case (Suc n)
  have "wt_count (loop_body os api cfg filename s) =
          (if wt_count s + 1 = wt_len then 0 else wt_count s + 1)" for s
    by (simp add: loop_body_def Let_def)
  with Suc show ?case
    by (simp add: after_passes_Suc mod_Suc)
qed

lemma trace_after_passes:
  "trace (after_passes os api cfg filename n (initial_state fs)) =
     ListProjects #
     concat (map (\<lambda>k.
         [RetrieveDataset (cvat_project_id cfg) ''download'' filename (export_format cfg),
          Print (if resp_status (api k) \<noteq> 200 \<and> resp_status (api k) \<noteq> 201
                 then CHR 0x0D # ''Dataset is downloading now.'' @ wt_list ! (k mod wt_len)
                 else CHR 0x0A # ''Dataset is downloaded.''),
          Sleep 1])
       [0..<n])"
proof (induction n)
  case 0
  show ?case by (simp add: after_passes_0 initial_state_simps)
next
  case (Suc n)
  show ?case
    unfolding after_passes_Suc loop_body_trace Suc
    by (simp add: calls_after_passes wt_count_after_passes initial_state_simps)
qed

text \<open>
  Claim C7. Every pass through the loop body, whatever the status of the response, adds
  to the trace exactly one call of \<open>retrieve_dataset\<close>, one message and one
  \<open>time.sleep(1)\<close>, in this order (the index into \<open>wt_list\<close> is in range). When the
  first response with status 200 or 201 is the one to call \<open>n\<close>, the cell ends and its
  trace is \<open>n + 1\<close> such triples, followed only by the events of the statements after
  the loop: the last pass sleeps as well, before the file is moved.
\<close>

theorem fixed_retry_cadence:
  "wt_count (after_passes os api cfg filename k (initial_state fs)) < length wt_list \<and>
   trace (after_passes os api cfg filename (Suc k) (initial_state fs)) =
     trace (after_passes os api cfg filename k (initial_state fs)) @
       [RetrieveDataset (cvat_project_id cfg) ''download'' filename (export_format cfg),
        Print (if resp_status (api k) \<noteq> 200 \<and> resp_status (api k) \<noteq> 201
               then CHR 0x0D # ''Dataset is downloading now.'' @ wt_list ! (k mod wt_len)
               else CHR 0x0A # ''Dataset is downloaded.''),
        Sleep 1] \<and>
   ((\<forall>k<n. resp_status (api k) \<noteq> 200 \<and> resp_status (api k) \<noteq> 201) \<and>
    (resp_status (api n) = 200 \<or> resp_status (api n) = 201) \<longrightarrow>
      (\<exists>r s' post.
         download_dataset e os cfg api fs = Some (r, s') \<and>
         calls s' = Suc n \<and>
         trace s' =
           ListProjects #
           concat (map (\<lambda>k.
               [RetrieveDataset (cvat_project_id cfg) ''download'' (dataset_filename e cfg)
                  (export_format cfg),
                Print (if resp_status (api k) \<noteq> 200 \<and> resp_status (api k) \<noteq> 201
                       then CHR 0x0D # ''Dataset is downloading now.'' @ wt_list ! (k mod wt_len)
                       else CHR 0x0A # ''Dataset is downloaded.''),
                Sleep 1])
             [0..<Suc n]) @ post \<and>
         set post \<subseteq> {Makedirs (export_dir cfg), Move (data_name (api n)) (export_dir cfg),
                       Print ''Dataset moved. Download process is completed.''}))"
proof (intro conjI impI)
  show "wt_count (after_passes os api cfg filename k (initial_state fs)) < length wt_list"
    by (simp add: wt_count_after_passes wt_len_def wt_list_def)
  show "trace (after_passes os api cfg filename (Suc k) (initial_state fs)) =
     trace (after_passes os api cfg filename k (initial_state fs)) @
       [RetrieveDataset (cvat_project_id cfg) ''download'' filename (export_format cfg),
        Print (if resp_status (api k) \<noteq> 200 \<and> resp_status (api k) \<noteq> 201
               then CHR 0x0D # ''Dataset is downloading now.'' @ wt_list ! (k mod wt_len)
               else CHR 0x0A # ''Dataset is downloaded.''),
        Sleep 1]"
    by (simp add: after_passes_Suc loop_body_trace calls_after_passes wt_count_after_passes
        initial_state_simps)
next
  assume a: "(\<forall>k<n. resp_status (api k) \<noteq> 200 \<and> resp_status (api k) \<noteq> 201) \<and>
    (resp_status (api n) = 200 \<or> resp_status (api n) = 201)"
  let ?fn = "dataset_filename e cfg"
  let ?s = "after_passes os api cfg ?fn (Suc n) (initial_state fs)"
  from a have loop: "download_loop os api cfg ?fn (initial_state fs) = Some ?s"
    by (intro download_loop_first_success) simp_all
  obtain r s' where rs: "move_dataset os (export_dir cfg) ?fn ?s = (r, s')"
    by (cases "move_dataset os (export_dir cfg) ?fn ?s")
  from loop rs have d: "download_dataset e os cfg api fs = Some (r, s')"
    by (simp add: download_dataset_def)
  have tf: "temp_filepath ?s = data_name (api n)"
    by (simp add: temp_filepath_after_passes initial_state_simps)
  from move_dataset_trace [of os "export_dir cfg" ?fn ?s] rs tf obtain post where
    post: "trace s' = trace ?s @ post"
      "set post \<subseteq> {Makedirs (export_dir cfg), Move (data_name (api n)) (export_dir cfg),
                       Print ''Dataset moved. Download process is completed.''}"
    by auto
  have c: "calls s' = Suc n"
    using rs by (auto simp: move_dataset_def makedirs_if_missing_def move_if_absent_def
        calls_after_passes initial_state_simps split: prod.splits option.splits if_splits)
  from d c post show "\<exists>r s' post.
         download_dataset e os cfg api fs = Some (r, s') \<and>
         calls s' = Suc n \<and>
         trace s' =
           ListProjects #
           concat (map (\<lambda>k.
               [RetrieveDataset (cvat_project_id cfg) ''download'' (dataset_filename e cfg)
                  (export_format cfg),
                Print (if resp_status (api k) \<noteq> 200 \<and> resp_status (api k) \<noteq> 201
                       then CHR 0x0D # ''Dataset is downloading now.'' @ wt_list ! (k mod wt_len)
                       else CHR 0x0A # ''Dataset is downloaded.''),
                Sleep 1])
             [0..<Suc n]) @ post \<and>
         set post \<subseteq> {Makedirs (export_dir cfg), Move (data_name (api n)) (export_dir cfg),
                       Print ''Dataset moved. Download process is completed.''}"
    unfolding trace_after_passes by (intro exI [of _ r] exI [of _ s'] exI [of _ post]) simp
qed


theorem fixed_retry_cadence_witness:
  "resp_status (example_api 0) = 202 \<and> resp_status (example_api 1) = 202 \<and>
   resp_status (example_api 2) = 200 \<and>
   (\<exists>s'. download_dataset (example_env JNull None) example_os (example_config ''./dataset/'') example_api
            Map.empty = Some (None, s') \<and>
         calls s' = 3 \<and>
         trace s' =
           [ListProjects,
            RetrieveDataset (JInt 1) ''download'' ''project_id_1.zip'' (JStr ''ImageNet 1.0''),
            Print (CHR 0x0D # ''Dataset is downloading now..''),
            Sleep 1,
            RetrieveDataset (JInt 1) ''download'' ''project_id_1.zip'' (JStr ''ImageNet 1.0''),
            Print (CHR 0x0D # ''Dataset is downloading now...''),
            Sleep 1,
            RetrieveDataset (JInt 1) ''download'' ''project_id_1.zip'' (JStr ''ImageNet 1.0''),
            Print (CHR 0x0A # ''Dataset is downloaded.''),
            Sleep 1,
            Makedirs ''./dataset/'',
            Move ''/tmp/project_id_1.zip'' ''./dataset/'',
            Print ''Dataset moved. Download process is completed.''])"
proof -
  let ?c = "example_config ''./dataset/''" and ?e = "example_env JNull None"
  have st: "resp_status (example_api 0) = 202" "resp_status (example_api 1) = 202"
    "resp_status (example_api 2) = 200"
    by (simp_all add: example_api_def)
  from fixed_retry_cadence [where api = example_api and os = example_os and cfg = ?c and n = 2
      and e = ?e and fs = Map.empty] example_api_polls example_api_succeeds
  obtain r s' where "download_dataset ?e example_os ?c example_api Map.empty = Some (r, s')"
    and "calls s' = Suc 2"
    by blast
  with example_download [of JNull None] st show ?thesis
    by (intro conjI exI [of _ s']) auto
qed

lemma makedirs_if_missing_cases:
  "makedirs_if_missing os dir s = (r, s1) \<Longrightarrow>
   temp_filepath s1 = temp_filepath s \<and>
   (os_path_exists os (fsys s) dir \<longrightarrow> r = None \<and> s1 = s) \<and>
   (\<not> os_path_exists os (fsys s) dir \<longrightarrow>
      fsys s1 = snd (os_makedirs os (fsys s) dir) \<and> r = fst (os_makedirs os (fsys s) dir) \<and>
      trace s1 = trace s @ (if r = None then [Makedirs dir] else []))"
  by (auto simp: makedirs_if_missing_def split: prod.splits option.splits if_splits)

text \<open>
  The guard of the move is the test of \<open>export_dir + filename\<close> in the file system that
  the first statement left: when that path exists the cell raises \<open>FileExistsError\<close> and
  calls \<open>shutil.move\<close> not at all, and a move that happened has passed the guard.
\<close>

lemma move_guarded_by_concatenated_path:
  assumes "makedirs_if_missing os dir s = (None, s1)"
  shows "os_path_exists os (fsys s1) (dir @ filename) \<Longrightarrow>
           move_dataset os dir filename s =
             (Some (FileExistsError
                (''Failed to move dataset. A dataset file with the same name exists in the export_dir: ''
                   @ dir)), s1)"
    and "Move a b \<in> set (trace (snd (move_dataset os dir filename s))) \<Longrightarrow>
         Move a b \<notin> set (trace s) \<Longrightarrow>
           \<not> os_path_exists os (fsys s1) (dir @ filename) \<and> a = temp_filepath s \<and> b = dir \<and>
           fst (move_dataset os dir filename s) = None"
proof -
  from makedirs_if_missing_cases [OF assms]
  have tf: "temp_filepath s1 = temp_filepath s"
    and tr: "set (trace s1) \<subseteq> set (trace s) \<union> {Makedirs dir}"
    by (auto split: if_splits)
  show "move_dataset os dir filename s =
             (Some (FileExistsError
                (''Failed to move dataset. A dataset file with the same name exists in the export_dir: ''
                   @ dir)), s1)"
    if "os_path_exists os (fsys s1) (dir @ filename)"
    using that assms by (simp add: move_dataset_def move_if_absent_def)
  show "\<not> os_path_exists os (fsys s1) (dir @ filename) \<and> a = temp_filepath s \<and> b = dir \<and>
           fst (move_dataset os dir filename s) = None"
    if "Move a b \<in> set (trace (snd (move_dataset os dir filename s)))"
      and "Move a b \<notin> set (trace s)"
    using that assms tf tr
    by (auto simp: move_dataset_def move_if_absent_def split: prod.splits option.splits if_splits)
qed

lemma makedirs_raises:
  assumes "makedirs_if_missing os dir s = (Some err, s1)"
  shows "move_dataset os dir filename s = (Some err, s1)"
    and "\<not> os_path_exists os (fsys s) dir"
    and "os_makedirs os (fsys s) dir = (Some err, fsys s1)"
    and "trace s1 = trace s"
  using assms
  by (auto simp: move_dataset_def makedirs_if_missing_def split: prod.splits option.splits if_splits)

lemma example_makedirs_raises:
  "move_dataset example_os ''./dataset/'' ''project_id_1.zip''
     (after_passes example_os example_api (example_config ''./dataset/'') ''project_id_1.zip'' 3
        (initial_state [''./dataset'' \<mapsto> File])) =
   (Some (FileExistsError ''[Errno 17] File exists: ./dataset/''),
    after_passes example_os example_api (example_config ''./dataset/'') ''project_id_1.zip'' 3
        (initial_state [''./dataset'' \<mapsto> File]))"
  unfolding example_after_passes
  by (simp add: move_dataset_def makedirs_if_missing_def example_os_def example_makedirs_def
      lookup_def rstrip_sep_def)

lemma example_flat_loads:
  "load_configurations_export (example_env (example_export_configuration ''./dataset'') None) =
     Inr (example_config ''./dataset'')"
  unfolding load_configurations_export_def example_validate_symlink
  by (simp add: example_env_def example_export_configuration_def validate_def bind_err_simps
      example_config_def)

lemma example_flat_move:
  "move_dataset example_os ''./dataset'' ''project_id_1.zip''
     (after_passes example_os example_api (example_config ''./dataset'') ''project_id_1.zip'' 3
        (initial_state [''./datasetproject_id_1.zip'' \<mapsto> File])) =
   (Some (FileExistsError
      ''Failed to move dataset. A dataset file with the same name exists in the export_dir: ./dataset''),
    \<lparr>status = 200, temp_filepath = ''/tmp/project_id_1.zip'', wt_count = 3, calls = 3,
      fsys = [''./datasetproject_id_1.zip'' \<mapsto> File, ''/tmp/project_id_1.zip'' \<mapsto> File,
              ''./dataset'' \<mapsto> Dir],
      trace =
        [ListProjects,
         RetrieveDataset (JInt 1) ''download'' ''project_id_1.zip'' (JStr ''ImageNet 1.0''),
         Print (CHR 0x0D # ''Dataset is downloading now..''),
         Sleep 1,
         RetrieveDataset (JInt 1) ''download'' ''project_id_1.zip'' (JStr ''ImageNet 1.0''),
         Print (CHR 0x0D # ''Dataset is downloading now...''),
         Sleep 1,
         RetrieveDataset (JInt 1) ''download'' ''project_id_1.zip'' (JStr ''ImageNet 1.0''),
         Print (CHR 0x0A # ''Dataset is downloaded.''),
         Sleep 1,
         Makedirs ''./dataset'']\<rparr>)"
  unfolding example_after_passes
  by (simp add: move_dataset_def makedirs_if_missing_def move_if_absent_def example_os_def
      example_makedirs_def lookup_def rstrip_sep_def)

text \<open>
  Claim C10. After a successful download the temporary file is moved into \<open>export_dir\<close>
  only when the path \<open>export_dir + filename\<close> (the two strings put together with no
  separator) does not exist; otherwise the cell raises \<open>FileExistsError\<close>, and on that
  error the state is unchanged. The guard and the unmoved temporary file are as claimed,
  the unchanged state is not: since the guard tests a path outside \<open>export_dir\<close>, the
  error can follow \<open>os.makedirs\<close>. In the run with \<open>export_dir = ./dataset\<close>, which does
  not exist, while the file \<open>./datasetproject_id_1.zip\<close> exists, the cell creates the
  directory \<open>./dataset\<close> and then raises \<open>FileExistsError\<close>, although \<open>export_dir\<close> holds
  no file of that name. The temporary file stays where it was.
\<close>

theorem FileExistsError_after_makedirs:
  "run_export_notebook (example_env (example_export_configuration ''./dataset'') None)
     example_os example_api [''./datasetproject_id_1.zip'' \<mapsto> File] =
     Some (Some (FileExistsError
         ''Failed to move dataset. A dataset file with the same name exists in the export_dir: ./dataset''),
       [''./datasetproject_id_1.zip'' \<mapsto> File, ''/tmp/project_id_1.zip'' \<mapsto> File,
        ''./dataset'' \<mapsto> Dir],
       [ListProjects,
        RetrieveDataset (JInt 1) ''download'' ''project_id_1.zip'' (JStr ''ImageNet 1.0''),
        Print (CHR 0x0D # ''Dataset is downloading now..''),
        Sleep 1,
        RetrieveDataset (JInt 1) ''download'' ''project_id_1.zip'' (JStr ''ImageNet 1.0''),
        Print (CHR 0x0D # ''Dataset is downloading now...''),
        Sleep 1,
        RetrieveDataset (JInt 1) ''download'' ''project_id_1.zip'' (JStr ''ImageNet 1.0''),
        Print (CHR 0x0A # ''Dataset is downloaded.''),
        Sleep 1,
        Makedirs ''./dataset'']) \<and>
   download_loop example_os example_api (example_config ''./dataset'') ''project_id_1.zip''
     (initial_state [''./datasetproject_id_1.zip'' \<mapsto> File]) =
     Some (after_passes example_os example_api (example_config ''./dataset'') ''project_id_1.zip'' 3
        (initial_state [''./datasetproject_id_1.zip'' \<mapsto> File])) \<and>
   fsys (after_passes example_os example_api (example_config ''./dataset'') ''project_id_1.zip'' 3
        (initial_state [''./datasetproject_id_1.zip'' \<mapsto> File])) =
     [''./datasetproject_id_1.zip'' \<mapsto> File, ''/tmp/project_id_1.zip'' \<mapsto> File] \<and>
   \<not> os_path_exists example_os
       [''./datasetproject_id_1.zip'' \<mapsto> File, ''/tmp/project_id_1.zip'' \<mapsto> File] ''./dataset'' \<and>
   os_path_exists example_os
     [''./datasetproject_id_1.zip'' \<mapsto> File, ''/tmp/project_id_1.zip'' \<mapsto> File,
      ''./dataset'' \<mapsto> Dir] ''./dataset'' \<and>
   os_path_exists example_os
     [''./datasetproject_id_1.zip'' \<mapsto> File, ''/tmp/project_id_1.zip'' \<mapsto> File,
      ''./dataset'' \<mapsto> Dir] (''./dataset'' @ ''project_id_1.zip'') \<and>
   \<not> os_path_exists example_os
       [''./datasetproject_id_1.zip'' \<mapsto> File, ''/tmp/project_id_1.zip'' \<mapsto> File,
        ''./dataset'' \<mapsto> Dir] ''./dataset/project_id_1.zip'' \<and>
   os_path_exists example_os
     [''./datasetproject_id_1.zip'' \<mapsto> File, ''/tmp/project_id_1.zip'' \<mapsto> File,
      ''./dataset'' \<mapsto> Dir] ''/tmp/project_id_1.zip''"
proof -
  let ?fs = "[''./datasetproject_id_1.zip'' \<mapsto> File]"
  let ?e = "example_env (example_export_configuration ''./dataset'') None"
  have d: "export_dir (example_config ''./dataset'') = ''./dataset''"
    by (simp add: example_config_def)
  have "download_dataset ?e example_os (example_config ''./dataset'') example_api ?fs =
      Some (move_dataset example_os ''./dataset'' ''project_id_1.zip''
        (after_passes example_os example_api (example_config ''./dataset'') ''project_id_1.zip'' 3
           (initial_state ?fs)))"
    unfolding download_dataset_def example_filename example_loop d by simp
  then have "run_export_notebook ?e example_os example_api ?fs =
     Some (Some (FileExistsError
         ''Failed to move dataset. A dataset file with the same name exists in the export_dir: ./dataset''),
       [''./datasetproject_id_1.zip'' \<mapsto> File, ''/tmp/project_id_1.zip'' \<mapsto> File,
        ''./dataset'' \<mapsto> Dir],
       [ListProjects,
        RetrieveDataset (JInt 1) ''download'' ''project_id_1.zip'' (JStr ''ImageNet 1.0''),
        Print (CHR 0x0D # ''Dataset is downloading now..''),
        Sleep 1,
        RetrieveDataset (JInt 1) ''download'' ''project_id_1.zip'' (JStr ''ImageNet 1.0''),
        Print (CHR 0x0D # ''Dataset is downloading now...''),
        Sleep 1,
        RetrieveDataset (JInt 1) ''download'' ''project_id_1.zip'' (JStr ''ImageNet 1.0''),
        Print (CHR 0x0A # ''Dataset is downloaded.''),
        Sleep 1,
        Makedirs ''./dataset''])"
    unfolding run_export_notebook_def example_flat_loads example_flat_move by simp
  moreover have "fsys (after_passes example_os example_api (example_config ''./dataset'')
        ''project_id_1.zip'' 3 (initial_state ?fs)) =
     [''./datasetproject_id_1.zip'' \<mapsto> File, ''/tmp/project_id_1.zip'' \<mapsto> File]"
    unfolding example_after_passes by simp
  moreover have "\<not> os_path_exists example_os
       [''./datasetproject_id_1.zip'' \<mapsto> File, ''/tmp/project_id_1.zip'' \<mapsto> File] ''./dataset''"
    by (simp add: example_os_def lookup_def rstrip_sep_def)
  moreover have "os_path_exists example_os
     [''./datasetproject_id_1.zip'' \<mapsto> File, ''/tmp/project_id_1.zip'' \<mapsto> File,
      ''./dataset'' \<mapsto> Dir] ''./dataset''"
    by (simp add: example_os_def lookup_def rstrip_sep_def)
  moreover have "os_path_exists example_os
     [''./datasetproject_id_1.zip'' \<mapsto> File, ''/tmp/project_id_1.zip'' \<mapsto> File,
      ''./dataset'' \<mapsto> Dir] (''./dataset'' @ ''project_id_1.zip'')"
    by (simp add: example_os_def lookup_def rstrip_sep_def)
  moreover have "\<not> os_path_exists example_os
       [''./datasetproject_id_1.zip'' \<mapsto> File, ''/tmp/project_id_1.zip'' \<mapsto> File,
        ''./dataset'' \<mapsto> Dir] ''./dataset/project_id_1.zip''"
    by (simp add: example_os_def lookup_def rstrip_sep_def)
  moreover have "os_path_exists example_os
     [''./datasetproject_id_1.zip'' \<mapsto> File, ''/tmp/project_id_1.zip'' \<mapsto> File,
      ''./dataset'' \<mapsto> Dir] ''/tmp/project_id_1.zip''"
    by (simp add: example_os_def lookup_def rstrip_sep_def)
  ultimately show ?thesis using example_loop by (intro conjI)
qed

text \<open>
  The other side of the same guard: with \<open>export_dir = ./dataset\<close> holding a file
  \<open>project_id_1.zip\<close>, the guard finds nothing at \<open>./datasetproject_id_1.zip\<close>, and it is
  \<open>shutil.move\<close> that refuses to overwrite the file.
\<close>

lemma example_guard_misses_file_in_export_dir:
  "move_dataset example_os ''./dataset'' ''project_id_1.zip''
     (after_passes example_os example_api (example_config ''./dataset'') ''project_id_1.zip'' 3
        (initial_state [''./dataset'' \<mapsto> Dir, ''./dataset/project_id_1.zip'' \<mapsto> File])) =
   (Some ShutilError,
    after_passes example_os example_api (example_config ''./dataset'') ''project_id_1.zip'' 3
        (initial_state [''./dataset'' \<mapsto> Dir, ''./dataset/project_id_1.zip'' \<mapsto> File]))"
  unfolding example_after_passes
  by (simp add: move_dataset_def makedirs_if_missing_def move_if_absent_def example_os_def
      example_makedirs_def example_move_def lookup_def rstrip_sep_def Let_def os_path_join_def
      os_path_basename_def)
section \<open>Properties of the natural sort\<close>

declare re_split.simps [simp del]

lemma re_split_no_decimal:
  assumes "\<forall>c \<in> set t. \<not> is_decimal c"
  shows "re_split t = [t]"
proof -
  from assms have "takeWhile (\<lambda>c. \<not> is_decimal c) t = t" "dropWhile (\<lambda>c. \<not> is_decimal c) t = []"
    by simp_all
  then show ?thesis by (subst re_split.simps) (simp add: Let_def)
qed

lemma re_split_run:
  assumes pre: "\<forall>c \<in> set pre. \<not> is_decimal c"
    and d: "d \<noteq> []" "\<forall>c \<in> set d. is_decimal c"
    and rest: "rest = [] \<or> \<not> is_decimal (hd rest)"
  shows "re_split (pre @ d @ rest) = pre # d # re_split rest"
proof -
  from d obtain x d' where xd: "d = x # d'" "is_decimal x" by (cases d) auto
  have t: "takeWhile (\<lambda>c. \<not> is_decimal c) (pre @ d @ rest) = pre"
    using pre xd by (simp add: takeWhile_append2)
  have r: "dropWhile (\<lambda>c. \<not> is_decimal c) (pre @ d @ rest) = d @ rest"
    using pre xd by (simp add: dropWhile_append2)
  have "takeWhile is_decimal rest = []" "dropWhile is_decimal rest = rest"
    using rest by (cases rest; simp)+
  then have t2: "takeWhile is_decimal (d @ rest) = d" and r2: "dropWhile is_decimal (d @ rest) = rest"
    using d(2) by (simp_all add: takeWhile_append2 dropWhile_append2)
  show ?thesis
    by (subst re_split.simps) (simp add: Let_def t r t2 r2 d(1))
qed

lemma re_split_cases:
  obtains (plain) "\<forall>c \<in> set t. \<not> is_decimal c"
  | (run) pre d rest where "t = pre @ d @ rest" "\<forall>c \<in> set pre. \<not> is_decimal c"
      "d \<noteq> []" "\<forall>c \<in> set d. is_decimal c" "rest = [] \<or> \<not> is_decimal (hd rest)"
proof (cases "dropWhile (\<lambda>c. \<not> is_decimal c) t = []")
  case True
  then have "\<forall>c \<in> set t. \<not> is_decimal c"
    by (metis dropWhile_eq_Nil_conv)
  then show ?thesis by (rule plain)
next
  case False
  let ?pre = "takeWhile (\<lambda>c. \<not> is_decimal c) t"
  let ?r = "dropWhile (\<lambda>c. \<not> is_decimal c) t"
  let ?d = "takeWhile is_decimal ?r" and ?rest = "dropWhile is_decimal ?r"
  have 1: "t = ?pre @ ?d @ ?rest" by simp
  have 2: "\<forall>c \<in> set ?pre. \<not> is_decimal c" by (auto dest: set_takeWhileD)
  from False have "is_decimal (hd ?r)" using hd_dropWhile [of "\<lambda>c. \<not> is_decimal c" t] by simp
  with False have 3: "?d \<noteq> []" by (cases ?r) simp_all
  have 4: "\<forall>c \<in> set ?d. is_decimal c" by (auto dest: set_takeWhileD)
  have 5: "?rest = [] \<or> \<not> is_decimal (hd ?rest)"
    using hd_dropWhile [of is_decimal ?r] by blast
  from 1 2 3 4 5 show ?thesis by (rule run)
qed

lemma concat_re_split: "concat (re_split t) = t"
proof (induction t rule: length_induct)
  case (1 t)
  show ?case
  proof (cases t rule: re_split_cases)
    case plain
    then show ?thesis by (simp add: re_split_no_decimal)
  next
    case (run pre d rest)
    then have "length rest < length t" by simp
    with 1 have "concat (re_split rest) = rest" by blast
    with run show ?thesis by (simp add: re_split_run)
  qed
qed

lemma re_split_append_run:
  assumes "p = [] \<or> \<not> is_decimal (last p)"
    and d: "d \<noteq> []" "\<forall>c \<in> set d. is_decimal c"
    and s: "s = [] \<or> \<not> is_decimal (hd s)"
  shows "re_split (p @ d @ s) = re_split p @ d # re_split s"
  using assms(1)
proof (induction p rule: length_induct)
  case (1 p)
  show ?case
  proof (cases p rule: re_split_cases)
    case plain
    with d s show ?thesis by (simp add: re_split_no_decimal re_split_run)
  next
    case (run pre dd rest)
    have rest: "rest \<noteq> []"
    proof
      assume "rest = []"
      with run have "p \<noteq> []" "is_decimal (last p)" by simp_all
      with "1.prems" show False by simp
    qed
    with run(5) have hd: "\<not> is_decimal (hd rest)" by simp
    from rest run(1) "1.prems" have last: "rest = [] \<or> \<not> is_decimal (last rest)" by simp
    from run(1) have "length rest < length p" using run(3) by simp
    with 1 last have ih: "re_split (rest @ d @ s) = re_split rest @ d # re_split s" by blast
    from rest hd have "rest @ d @ s = [] \<or> \<not> is_decimal (hd (rest @ d @ s))" by simp
    with run have "re_split (pre @ dd @ (rest @ d @ s)) = pre # dd # re_split (rest @ d @ s)"
      by (intro re_split_run) simp_all
    moreover from run have "re_split p = pre # dd # re_split rest"
      by (simp add: re_split_run)
    ultimately show ?thesis using ih run(1) by simp
  qed
qed

lemma atoi_decimal:
  assumes "d \<noteq> []" "\<forall>c \<in> set d. is_decimal c"
  shows "atoi d = Inr (KInt (decimal_value d))"
  using assms by (simp add: atoi_def isdigit_def int_of_text_def list_all_iff bind_err_simps)

lemma atoi_no_decimal:
  assumes "\<forall>c \<in> set t. \<not> is_decimal c"
  shows "atoi t = (if t \<noteq> [] \<and> (\<forall>c \<in> set t. is_superscript c) then Inl ValueError else Inr (KStr t))"
proof (cases "t \<noteq> [] \<and> (\<forall>c \<in> set t. is_superscript c)")
  case True
  with assms have "isdigit t" "\<not> list_all is_decimal t"
    by (auto simp: isdigit_def list_all_iff)
  with True show ?thesis by (simp add: atoi_def int_of_text_def bind_err_simps)
next
  case False
  with assms have "\<not> isdigit t" by (auto simp: isdigit_def list_all_iff)
  with False show ?thesis by (simp add: atoi_def)
qed

lemma natural_keys_plain:
  assumes "\<forall>c \<in> set t. \<not> is_decimal c"
  shows "natural_keys t =
     (if t \<noteq> [] \<and> (\<forall>c \<in> set t. is_superscript c) then Inl ValueError else Inr [KStr t])"
  using assms
  by (simp add: natural_keys_def re_split_no_decimal atoi_no_decimal bind_err_simps)

lemma natural_keys_run:
  assumes "\<forall>c \<in> set pre. \<not> is_decimal c"
    and "d \<noteq> []" "\<forall>c \<in> set d. is_decimal c"
    and "rest = [] \<or> \<not> is_decimal (hd rest)"
  shows "natural_keys (pre @ d @ rest) =
     (if pre \<noteq> [] \<and> (\<forall>c \<in> set pre. is_superscript c) then Inl ValueError
      else bind_err (natural_keys rest) (\<lambda>ks.
        Inr (KStr pre # KInt (decimal_value d) # ks)))"
  using assms
  by (simp add: natural_keys_def re_split_run atoi_no_decimal atoi_decimal bind_err_simps)
     (simp add: bind_err_def split: sum.splits)

lemma natural_keys_alternates:
  "natural_keys t = Inl ValueError \<or> (\<exists>ks. natural_keys t = Inr ks \<and> alternates True ks)"
proof (induction t rule: length_induct)
  case (1 t)
  show ?case
  proof (cases t rule: re_split_cases)
    case plain
    then show ?thesis by (simp add: natural_keys_plain)
  next
    case (run pre d rest)
    then have "length rest < length t" by simp
    with 1 have "natural_keys rest = Inl ValueError \<or>
      (\<exists>ks. natural_keys rest = Inr ks \<and> alternates True ks)" by blast
    then show ?thesis
      unfolding run(1) natural_keys_run [OF run(2-5)]
      by (auto simp: bind_err_simps)
  qed
qed

lemma natural_keys_no_superscript:
  assumes "\<forall>c \<in> set t. \<not> is_superscript c"
  shows "\<exists>ks. natural_keys t = Inr ks \<and> alternates True ks"
  using assms
proof (induction t rule: length_induct)
  case (1 t)
  show ?case
  proof (cases t rule: re_split_cases)
    case plain
    with "1.prems" show ?thesis by (cases t) (auto simp: natural_keys_plain)
  next
    case (run pre d rest)
    then have "length rest < length t" by simp
    moreover from run(1) "1.prems" have "\<forall>c \<in> set rest. \<not> is_superscript c" by simp
    ultimately obtain ks where "natural_keys rest = Inr ks" "alternates True ks"
      using 1 by blast
    moreover from run(1) "1.prems" have "\<not> (pre \<noteq> [] \<and> (\<forall>c \<in> set pre. is_superscript c))"
      by (cases pre) auto
    ultimately show ?thesis
      unfolding run(1) natural_keys_run [OF run(2-5)]
      by (simp add: bind_err_simps)
  qed
qed

lemma keys_lt_alternates:
  "alternates b ka \<Longrightarrow> alternates b kb \<Longrightarrow> \<exists>r. keys_lt ka kb = Inr r"
proof (induction ka kb arbitrary: b rule: keys_lt.induct)
  case (4 x xs y ys)
  show ?case
  proof (cases "x = y")
    case True
    with 4 show ?thesis by (cases x) auto
  next
    case False
    with "4.prems" show ?thesis by (cases x; cases y) auto
  qed
qed auto

lemma map_err_append:
  "map_err f (xs @ ys) =
     bind_err (map_err f xs) (\<lambda>a. bind_err (map_err f ys) (\<lambda>b. Inr (a @ b)))"
  by (induction xs) (auto simp: bind_err_def split: sum.splits)

lemma natural_keys_append_run:
  assumes "p = [] \<or> \<not> is_decimal (last p)"
    and "d \<noteq> []" "\<forall>c \<in> set d. is_decimal c"
    and "s = [] \<or> \<not> is_decimal (hd s)"
    and "natural_keys p = Inr kp" "natural_keys s = Inr ks"
  shows "natural_keys (p @ d @ s) = Inr (kp @ KInt (decimal_value d) # ks)"
  using assms(5,6)
  unfolding natural_keys_def re_split_append_run [OF assms(1-4)] map_err_append
  by (simp add: bind_err_simps atoi_decimal [OF assms(2,3)])

lemma keys_lt_same: "keys_lt ks ks = Inr False"
  by (induction ks) simp_all

lemma keys_lt_common_prefix: "keys_lt (k @ a) (k @ b) = keys_lt a b"
  by (induction k) simp_all

lemma keys_lt_digit_run:
  "keys_lt (kp @ KInt v1 # ks) (kp @ KInt v2 # ks) = Inr (v1 < v2)"
  by (simp add: keys_lt_common_prefix keys_lt_same)

lemma sorted_natural_pair:
  assumes "natural_keys a = Inr ka" "natural_keys b = Inr kb" "keys_lt ka kb = Inr True"
    "keys_lt kb ka = Inr False"
  shows "sorted_natural [a, b] = Inr [a, b]" "sorted_natural [b, a] = Inr [a, b]"
  using assms by (simp_all add: sorted_natural_def bind_err_simps)

lemma natural_order_of_digit_runs:
  assumes p: "p = [] \<or> \<not> is_decimal (last p)" "\<forall>c \<in> set p. \<not> is_superscript c"
    and s: "s = [] \<or> \<not> is_decimal (hd s)" "\<forall>c \<in> set s. \<not> is_superscript c"
    and d1: "d1 \<noteq> []" "\<forall>c \<in> set d1. is_decimal c"
    and d2: "d2 \<noteq> []" "\<forall>c \<in> set d2. is_decimal c"
  shows "\<exists>ka kb. natural_keys (p @ d1 @ s) = Inr ka \<and> natural_keys (p @ d2 @ s) = Inr kb \<and>
           keys_lt ka kb = Inr (decimal_value d1 < decimal_value d2) \<and>
           (decimal_value d1 < decimal_value d2 \<longrightarrow>
              sorted_natural [p @ d1 @ s, p @ d2 @ s] = Inr [p @ d1 @ s, p @ d2 @ s] \<and>
              sorted_natural [p @ d2 @ s, p @ d1 @ s] = Inr [p @ d1 @ s, p @ d2 @ s])"
proof -
  from natural_keys_no_superscript [OF p(2)] obtain kp where kp: "natural_keys p = Inr kp" by blast
  from natural_keys_no_superscript [OF s(2)] obtain ks where ks: "natural_keys s = Inr ks" by blast
  let ?ka = "kp @ KInt (decimal_value d1) # ks" and ?kb = "kp @ KInt (decimal_value d2) # ks"
  have a: "natural_keys (p @ d1 @ s) = Inr ?ka"
    by (rule natural_keys_append_run [OF p(1) d1 s(1) kp ks])
  have b: "natural_keys (p @ d2 @ s) = Inr ?kb"
    by (rule natural_keys_append_run [OF p(1) d2 s(1) kp ks])
  have lt: "keys_lt ?ka ?kb = Inr (decimal_value d1 < decimal_value d2)"
    and gt: "keys_lt ?kb ?ka = Inr (decimal_value d2 < decimal_value d1)"
    by (rule keys_lt_digit_run)+
  have "sorted_natural [p @ d1 @ s, p @ d2 @ s] = Inr [p @ d1 @ s, p @ d2 @ s] \<and>
        sorted_natural [p @ d2 @ s, p @ d1 @ s] = Inr [p @ d1 @ s, p @ d2 @ s]"
    if "decimal_value d1 < decimal_value d2"
    using sorted_natural_pair [OF a b] lt gt that by simp
  with a b lt show ?thesis by blast
qed

lemma decorate_keys:
  "map_err (\<lambda>file. bind_err (natural_keys file) (\<lambda>k. Inr (k, file))) files = Inl ValueError \<or>
   (\<exists>keyed. map_err (\<lambda>file. bind_err (natural_keys file) (\<lambda>k. Inr (k, file))) files = Inr keyed \<and>
      map snd keyed = files \<and> (\<forall>x \<in> set keyed. alternates True (fst x)))"
proof (induction files)
  case Nil
  show ?case by simp
next
  case (Cons f files)
  from natural_keys_alternates [of f] Cons show ?case
    by (auto simp: bind_err_simps)
qed

lemma insert_by_key_alternates:
  assumes "alternates True (fst x)" "\<forall>y \<in> set ys. alternates True (fst y)"
  shows "\<exists>zs. insert_by_key x ys = Inr zs \<and> mset zs = add_mset x (mset ys)"
  using assms(2)
proof (induction ys)
  case Nil
  show ?case by simp
next
  case (Cons y ys)
  then obtain zs where zs: "insert_by_key x ys = Inr zs" "mset zs = add_mset x (mset ys)"
    by auto
  from keys_lt_alternates [OF assms(1), of "fst y"] Cons.prems
  obtain r where "keys_lt (fst x) (fst y) = Inr r" by auto
  with zs show ?case by (cases r) (simp_all add: bind_err_simps)
qed

lemma insert_all_alternates:
  assumes "\<forall>x \<in> set xs. alternates True (fst x)" "\<forall>y \<in> set acc. alternates True (fst y)"
  shows "\<exists>zs. insert_all xs acc = Inr zs \<and> mset zs = mset xs + mset acc"
  using assms
proof (induction xs arbitrary: acc)
  case Nil
  show ?case by simp
next
  case (Cons x xs)
  from insert_by_key_alternates [of x acc] Cons.prems
  obtain ys where ys: "insert_by_key x acc = Inr ys" "mset ys = add_mset x (mset acc)" by auto
  then have "set ys = insert x (set acc)" by (metis set_mset_add_mset_insert set_mset_mset)
  with Cons.prems have "\<forall>y \<in> set ys. alternates True (fst y)" by simp
  with Cons.IH [of ys] Cons.prems obtain zs where
    "insert_all xs ys = Inr zs" "mset zs = mset xs + mset ys" by auto
  with ys show ?case by (simp add: bind_err_simps)
qed

lemma sorted_natural_no_TypeError:
  "sorted_natural files = Inl ValueError \<or>
   (\<exists>result. sorted_natural files = Inr result \<and> mset result = mset files)"
proof -
  let ?dec = "map_err (\<lambda>file. bind_err (natural_keys file) (\<lambda>k. Inr (k, file))) files"
  from decorate_keys [of files] show ?thesis
  proof
    assume "?dec = Inl ValueError"
    then show ?thesis by (simp add: sorted_natural_def bind_err_simps)
  next
    assume "\<exists>keyed. ?dec = Inr keyed \<and> map snd keyed = files \<and>
      (\<forall>x \<in> set keyed. alternates True (fst x))"
    then obtain keyed where k: "?dec = Inr keyed" "map snd keyed = files"
      "\<forall>x \<in> set keyed. alternates True (fst x)" by blast
    from insert_all_alternates [OF k(3), of "[]"] obtain zs where
      zs: "insert_all keyed [] = Inr zs" "mset zs = mset keyed" by auto
    from zs(2) have "mset (map snd zs) = mset (map snd keyed)" by (metis mset_map)
    with k zs show ?thesis by (simp add: sorted_natural_def bind_err_simps)
  qed
qed


lemma natural_keys_examples:
  "re_split ''a1b22c'' = [''a'', ''1'', ''b'', ''22'', ''c'']"
  "re_split ''12'' = [[], ''12'', []]"
  "natural_keys ''file10'' = Inr [KStr ''file'', KInt 10, KStr []]"
  "natural_keys ''file2'' = Inr [KStr ''file'', KInt 2, KStr []]"
  "natural_keys ''007'' = Inr [KStr [], KInt 7, KStr []]"
  "natural_keys [] = Inr [KStr []]"
  by (simp_all add: natural_keys_def re_split.simps is_decimal_def atoi_def isdigit_def
      is_superscript_def int_of_text_def decimal_value_def digit_value_def bind_err_simps)

lemma sorted_natural_example:
  "sorted_natural [''file10'', ''file2'', ''file1''] = Inr [''file1'', ''file2'', ''file10'']"
  by (simp add: sorted_natural_def natural_keys_def re_split.simps is_decimal_def atoi_def
      isdigit_def is_superscript_def int_of_text_def decimal_value_def digit_value_def
      bind_err_simps)

lemma alternates_nth:
  "alternates b ks \<Longrightarrow> i < length ks \<Longrightarrow>
   (if even i = b then \<exists>s. ks ! i = KStr s else \<exists>n. ks ! i = KInt n)"
proof (induction ks arbitrary: b i)
  case Nil
  then show ?case by simp
next
  case (Cons k ks)
  show ?case
  proof (cases i)
    case 0
    with Cons.prems show ?thesis by (cases k) auto
  next
    case (Suc j)
    with Cons.prems have "alternates (\<not> b) ks" "j < length ks" by (cases k; auto)+
    from Cons.IH [OF this] Suc show ?thesis by auto
  qed
qed

text \<open>
  The type discipline of the keys: every key list that \<open>natural_keys\<close> returns has a
  string at every even index and an integer at every odd index, so the comparison of two
  such lists only compares a string with a string or an integer with an integer and
  returns; \<open>sorted\<close> raises no \<open>TypeError\<close>, and what it returns is a permutation of its
  input.
\<close>

theorem sorting_raises_no_TypeError:
  "(\<forall>ks. natural_keys t = Inr ks \<longrightarrow>
      (\<forall>i<length ks. if even i then \<exists>s. ks ! i = KStr s else \<exists>n. ks ! i = KInt n)) \<and>
   (\<forall>ka kb. natural_keys a = Inr ka \<and> natural_keys b = Inr kb \<longrightarrow>
      (\<exists>less. keys_lt ka kb = Inr less)) \<and>
   sorted_natural files \<noteq> Inl TypeError \<and>
   (\<forall>result. sorted_natural files = Inr result \<longrightarrow> mset result = mset files)"
proof (intro conjI allI impI)
  fix ks i
  assume "natural_keys t = Inr ks" "i < length ks"
  with natural_keys_alternates [of t] have "alternates True ks" by auto
  from alternates_nth [OF this \<open>i < length ks\<close>]
  show "if even i then \<exists>s. ks ! i = KStr s else \<exists>n. ks ! i = KInt n" by simp
next
  fix ka kb
  assume "natural_keys a = Inr ka \<and> natural_keys b = Inr kb"
  with natural_keys_alternates [of a] natural_keys_alternates [of b]
  have "alternates True ka" "alternates True kb" by auto
  then show "\<exists>less. keys_lt ka kb = Inr less" by (rule keys_lt_alternates)
next
  from sorted_natural_no_TypeError [of files]
  show "sorted_natural files \<noteq> Inl TypeError" by auto
next
  fix result
  assume "sorted_natural files = Inr result"
  with sorted_natural_no_TypeError [of files] show "mset result = mset files" by auto
qed

theorem sorting_raises_no_TypeError_witness:
  "natural_keys ''file10'' = Inr [KStr ''file'', KInt 10, KStr []] \<and>
   natural_keys ''file2'' = Inr [KStr ''file'', KInt 2, KStr []] \<and>
   (\<exists>s. [KStr ''file'', KInt 10, KStr []] ! 0 = KStr s) \<and>
   (\<exists>n. [KStr ''file'', KInt 10, KStr []] ! 1 = KInt n) \<and>
   (\<exists>less. keys_lt [KStr ''file'', KInt 2, KStr []] [KStr ''file'', KInt 10, KStr []] = Inr less) \<and>
   sorted_natural [''file10'', ''file2'', ''file1''] = Inr [''file1'', ''file2'', ''file10''] \<and>
   mset [''file1'', ''file2'', ''file10''] = mset [''file10'', ''file2'', ''file1'']"
proof -
  note t = sorting_raises_no_TypeError [where t = "''file10''" and a = "''file2''"
      and b = "''file10''" and files = "[''file10'', ''file2'', ''file1'']"]
  note k10 = natural_keys_examples(3) and k2 = natural_keys_examples(4)
  from t k10 have idx: "\<forall>i<length [KStr ''file'', KInt 10, KStr []].
      if even i then \<exists>s. [KStr ''file'', KInt 10, KStr []] ! i = KStr s
      else \<exists>n. [KStr ''file'', KInt 10, KStr []] ! i = KInt n"
    by blast
  from idx [rule_format, of 0] have i0: "\<exists>s. [KStr ''file'', KInt 10, KStr []] ! 0 = KStr s"
    by simp
  from idx [rule_format, of 1] have i1: "\<exists>n. [KStr ''file'', KInt 10, KStr []] ! 1 = KInt n"
    by simp
  from t k10 k2
  have lt: "\<exists>less. keys_lt [KStr ''file'', KInt 2, KStr []] [KStr ''file'', KInt 10, KStr []] = Inr less"
    by blast
  from t sorted_natural_example
  have ms: "mset [''file1'', ''file2'', ''file10''] = mset [''file10'', ''file2'', ''file1'']"
    by blast
  from k10 k2 i0 i1 lt sorted_natural_example ms show ?thesis by (intro conjI)
qed


text \<open>
  Claim C9. Sorting with \<open>key=natural_keys\<close> is total: for every string, \<open>natural_keys\<close>
  produces a key list with a string at every even index and an integer at every odd
  index. The key lists that are produced have this shape
  (\<open>sorting_raises_no_TypeError\<close>), but a key list is not produced for every string: in
  \<open>1\<close>, superscript two, \<open>2\<close> the chunk between the two runs of decimal digits is the
  superscript alone; \<open>isdigit\<close> accepts it, \<open>int\<close> does not, \<open>natural_keys\<close> raises
  \<open>ValueError\<close>, and so does \<open>sorted\<close> on a list that holds this string.
\<close>

theorem natural_keys_superscript_ValueError:
  "re_split [CHR ''1'', CHR 0xB2, CHR ''2''] = [[], ''1'', [CHR 0xB2], ''2'', []] \<and>
   isdigit [CHR 0xB2] \<and>
   int_of_text [CHR 0xB2] = Inl ValueError \<and>
   atoi [CHR 0xB2] = Inl ValueError \<and>
   natural_keys [CHR ''1'', CHR 0xB2, CHR ''2''] = Inl ValueError \<and>
   sorted_natural [[CHR ''1'', CHR 0xB2, CHR ''2'']] = Inl ValueError \<and>
   sorted_natural [''file2'', [CHR ''1'', CHR 0xB2, CHR ''2''], ''file10''] = Inl ValueError"
  by (simp add: sorted_natural_def natural_keys_def re_split.simps is_decimal_def atoi_def
      isdigit_def is_superscript_def int_of_text_def decimal_value_def digit_value_def
      bind_err_simps)

text \<open>
  Claim C4 says that file names are enumerated in natural order: any two names that
  differ only in a run of digits are ordered by the value of the run. This holds for
  names without superscript digits (\<open>natural_order_of_digit_runs\<close>), but two names that
  differ only in their last run of digits, \<open>10\<close> and \<open>2\<close>, and hold a superscript two
  between two decimal digits are not ordered at all: \<open>sorted\<close> raises \<open>ValueError\<close>, in
  either order of the input.
\<close>

theorem sorted_natural_superscript_ValueError:
  "sorted_natural [''img1'' @ [CHR 0xB2] @ ''10.jpg'', ''img1'' @ [CHR 0xB2] @ ''2.jpg''] =
     Inl ValueError \<and>
   sorted_natural [''img1'' @ [CHR 0xB2] @ ''2.jpg'', ''img1'' @ [CHR 0xB2] @ ''10.jpg''] =
     Inl ValueError"
  by (simp add: sorted_natural_def natural_keys_def re_split.simps is_decimal_def atoi_def
      isdigit_def is_superscript_def int_of_text_def decimal_value_def digit_value_def
      bind_err_simps)

section \<open>Properties of the evaluation\<close>

lemma argmax_from_spec:
  assumes "ys \<noteq> []" "pos < length ys" "best = ys ! pos" "i = length ys"
    and "\<forall>y \<in> set ys. y \<le> best" "\<forall>j<pos. ys ! j < best"
  shows "argmax_from best pos i xs < length (ys @ xs) \<and>
         (\<forall>y \<in> set (ys @ xs). y \<le> (ys @ xs) ! argmax_from best pos i xs) \<and>
         (\<forall>j<argmax_from best pos i xs. (ys @ xs) ! j < (ys @ xs) ! argmax_from best pos i xs)"
  using assms
proof (induction xs arbitrary: ys pos best i)
  case Nil
  then show ?case by simp
next
  case (Cons x xs)
  show ?case
  proof (cases "best < x")
    case True
    have "argmax_from x i (Suc i) xs < length ((ys @ [x]) @ xs) \<and>
         (\<forall>y \<in> set ((ys @ [x]) @ xs). y \<le> ((ys @ [x]) @ xs) ! argmax_from x i (Suc i) xs) \<and>
         (\<forall>j<argmax_from x i (Suc i) xs.
            ((ys @ [x]) @ xs) ! j < ((ys @ [x]) @ xs) ! argmax_from x i (Suc i) xs)"
    proof (rule Cons.IH)
      show "ys @ [x] \<noteq> []" by simp
      show "i < length (ys @ [x])" using Cons.prems(4) by simp
      show "x = (ys @ [x]) ! i" using Cons.prems(4) by simp
      show "Suc i = length (ys @ [x])" using Cons.prems(4) by simp
      show "\<forall>y \<in> set (ys @ [x]). y \<le> x" using Cons.prems(5) True by auto
      show "\<forall>j<i. (ys @ [x]) ! j < x"
      proof (intro allI impI)
        fix j assume "j < i"
        with Cons.prems(4) have "ys ! j \<in> set ys" by simp
        with Cons.prems(5) have "ys ! j \<le> best" by blast
        with True \<open>j < i\<close> Cons.prems(4) show "(ys @ [x]) ! j < x"
          by (simp add: nth_append)
      qed
    qed
    with True show ?thesis by simp
  next
    case False
    have "argmax_from best pos (Suc i) xs < length ((ys @ [x]) @ xs) \<and>
         (\<forall>y \<in> set ((ys @ [x]) @ xs). y \<le> ((ys @ [x]) @ xs) ! argmax_from best pos (Suc i) xs) \<and>
         (\<forall>j<argmax_from best pos (Suc i) xs.
            ((ys @ [x]) @ xs) ! j < ((ys @ [x]) @ xs) ! argmax_from best pos (Suc i) xs)"
    proof (rule Cons.IH)
      show "ys @ [x] \<noteq> []" by simp
      show "pos < length (ys @ [x])" using Cons.prems(2) by simp
      show "best = (ys @ [x]) ! pos" using Cons.prems(2,3) by (simp add: nth_append)
      show "Suc i = length (ys @ [x])" using Cons.prems(4) by simp
      show "\<forall>y \<in> set (ys @ [x]). y \<le> best" using Cons.prems(5) False by auto
      show "\<forall>j<pos. (ys @ [x]) ! j < best"
        using Cons.prems(2,6) by (auto simp: nth_append)
    qed
    with False show ?thesis by simp
  qed
qed

lemma np_argmax_first_maximum:
  assumes "np_argmax xs = Inr a"
  shows "a < length xs \<and> (\<forall>y \<in> set xs. y \<le> xs ! a) \<and> (\<forall>j<a. xs ! j < xs ! a)"
proof (cases xs)
  case Nil
  with assms show ?thesis by simp
next
  case (Cons x xs')
  with assms have a: "a = argmax_from x 0 1 xs'" by simp
  from argmax_from_spec [of "[x]" 0 x 1 xs'] show ?thesis
    unfolding a Cons by simp
qed

lemma np_argmax_nonempty: "xs \<noteq> [] \<Longrightarrow> \<exists>a. np_argmax xs = Inr a"
  by (cases xs) simp_all

lemma predict_images_all:
  assumes "\<forall>t \<in> set ts. infer (image_path t) \<noteq> []"
  shows "\<exists>preds. predict_images infer ts acc = Inr (acc @ preds) \<and> length preds = length ts \<and>
           (\<forall>i<length ts. np_argmax (infer (image_path (ts ! i))) = Inr (hd (predictions (preds ! i))) \<and>
              predictions (preds ! i) \<noteq> [])"
  using assms
proof (induction ts arbitrary: acc)
  case Nil
  show ?case by simp
next
  case (Cons t ts)
  from Cons.prems np_argmax_nonempty [of "infer (image_path t)"]
  obtain a where a: "np_argmax (infer (image_path t)) = Inr a" by auto
  let ?p = "\<lparr>prediction_imageID = imageID t, predictions = [a]\<rparr>"
  from Cons.IH [of "acc @ [?p]"] Cons.prems obtain preds where
    preds: "predict_images infer ts (acc @ [?p]) = Inr ((acc @ [?p]) @ preds)"
      "length preds = length ts"
      "\<forall>i<length ts. np_argmax (infer (image_path (ts ! i))) = Inr (hd (predictions (preds ! i))) \<and>
              predictions (preds ! i) \<noteq> []"
    by auto
  have "\<forall>i<length (t # ts).
      np_argmax (infer (image_path ((t # ts) ! i))) = Inr (hd (predictions ((?p # preds) ! i))) \<and>
      predictions ((?p # preds) ! i) \<noteq> []"
  proof (intro allI impI)
    fix i assume "i < length (t # ts)"
    then show "np_argmax (infer (image_path ((t # ts) ! i))) =
        Inr (hd (predictions ((?p # preds) ! i))) \<and> predictions ((?p # preds) ! i) \<noteq> []"
      using a preds(3) by (cases i) simp_all
  qed
  with a preds(1,2) show ?case
    by (intro exI [of _ "?p # preds"]) (simp add: bind_err_simps)
qed

lemma count_accurate_filter:
  assumes "\<forall>i \<in> set idxs. i < length preds \<and> i < length gt \<and> predictions (preds ! i) \<noteq> []"
  shows "count_accurate preds gt idxs c =
           Inr (c + length (filter (\<lambda>i. int (hd (predictions (preds ! i))) = gt ! i) idxs))"
  using assms
proof (induction idxs arbitrary: c)
  case Nil
  show ?case by simp
next
  case (Cons i idxs)
  then obtain a rest where "predictions (preds ! i) = a # rest"
    by (cases "predictions (preds ! i)") auto
  with Cons show ?case by simp
qed


text \<open>
  Claim C6. For a non-empty list of test images (with an output for every image and a
  ground-truth id for every position), \<open>evaluate_tflite_model\<close> returns the number of
  positions \<open>i\<close> at which the argmax of the output for image \<open>i\<close> equals
  \<open>ground_truth_ids[i]\<close>, divided by the number of images: a rational between 0 and 1.
\<close>

theorem top_1_accuracy:
  assumes "images \<noteq> []"
    and "length images \<le> length ground_truth_ids"
    and "\<forall>t \<in> set images. infer (image_path t) \<noteq> []"
  shows "evaluate_tflite_model infer ground_truth_ids images =
           Inr (of_nat (card {i. i < length images \<and>
                   (\<exists>a. np_argmax (infer (image_path (images ! i))) = Inr a \<and>
                        int a = ground_truth_ids ! i)})
                / of_nat (length images)) \<and>
         (\<exists>accuracy. evaluate_tflite_model infer ground_truth_ids images = Inr accuracy \<and>
            0 \<le> accuracy \<and> accuracy \<le> 1)"
proof -
  let ?n = "length images"
  let ?hit = "\<lambda>i. \<exists>a. np_argmax (infer (image_path (images ! i))) = Inr a \<and>
                       int a = ground_truth_ids ! i"
  from predict_images_all [OF assms(3), of "[]"] obtain preds where
    preds: "predict_images infer images [] = Inr preds" "length preds = ?n"
      "\<forall>i<?n. np_argmax (infer (image_path (images ! i))) = Inr (hd (predictions (preds ! i))) \<and>
              predictions (preds ! i) \<noteq> []"
    by auto
  let ?eq = "\<lambda>i. int (hd (predictions (preds ! i))) = ground_truth_ids ! i"
  have "\<forall>i \<in> set [0..<length preds].
          i < length preds \<and> i < length ground_truth_ids \<and> predictions (preds ! i) \<noteq> []"
    using preds(2,3) assms(2) by simp
  from count_accurate_filter [OF this, of 0]
  have cnt: "count_accurate preds ground_truth_ids [0..<length preds] 0 =
               Inr (length (filter ?eq [0..<?n]))"
    using preds(2) by simp
  have "length (filter ?eq [0..<?n]) = card {i. i < ?n \<and> ?eq i}"
    by (simp add: length_filter_conv_card cong: conj_cong)
  also have "{i. i < ?n \<and> ?eq i} = {i. i < ?n \<and> ?hit i}"
    using preds(3) by auto
  finally have len: "length (filter ?eq [0..<?n]) = card {i. i < ?n \<and> ?hit i}" .
  have n: "?n \<noteq> 0" using assms(1) by simp
  have res: "evaluate_tflite_model infer ground_truth_ids images =
           Inr (of_nat (card {i. i < ?n \<and> ?hit i}) / of_nat ?n)"
    unfolding evaluate_tflite_model_def preds(1) bind_err_simps cnt len
    using n preds(2) by simp
  have "card {i. i < ?n \<and> ?hit i} \<le> card {..<?n}"
    by (intro card_mono) auto
  then have le: "card {i. i < ?n \<and> ?hit i} \<le> ?n" by simp
  have "(0::rat) \<le> of_nat (card {i. i < ?n \<and> ?hit i}) / of_nat ?n" by simp
  moreover have "(of_nat (card {i. i < ?n \<and> ?hit i}) :: rat) / of_nat ?n \<le> 1"
    using le n by (simp add: divide_le_eq_1)
  ultimately show ?thesis using res by simp
qed


lemma example_evaluation:
  "evaluate_tflite_model example_infer [1, 0, 2] example_images = Inr (2 / 3)"
  by (simp add: evaluate_tflite_model_def example_infer_def example_images_def bind_err_simps
      upt_rec)

theorem top_1_accuracy_witness:
  "example_images \<noteq> [] \<and> length example_images \<le> length [1, 0, 2 :: int] \<and>
   evaluate_tflite_model example_infer [1, 0, 2] example_images = Inr (2 / 3) \<and>
   card {i. i < length example_images \<and>
      (\<exists>a. np_argmax (example_infer (image_path (example_images ! i))) = Inr a \<and>
           int a = [1, 0, 2] ! i)} = 2"
proof -
  have h1: "example_images \<noteq> []" by (simp add: example_images_def)
  have h2: "length example_images \<le> length [1, 0, 2 :: int]" by (simp add: example_images_def)
  have h3: "\<forall>t \<in> set example_images. example_infer (image_path t) \<noteq> []"
    by (simp add: example_images_def example_infer_def)
  have l: "length example_images = 3" by (simp add: example_images_def)
  define c where "c = card {i. i < length example_images \<and>
      (\<exists>a. np_argmax (example_infer (image_path (example_images ! i))) = Inr a \<and>
           int a = [1, 0, 2] ! i)}"
  from top_1_accuracy [OF h1 h2 h3]
  have "evaluate_tflite_model example_infer [1, 0, 2] example_images =
      Inr (of_nat c / of_nat (length example_images))"
    unfolding c_def by (rule conjunct1)
  then have "(of_nat c :: rat) / 3 = 2 / 3"
    unfolding example_evaluation l by simp
  then have "(of_nat c :: rat) = of_nat 2" by simp
  then have "c = 2" by (simp only: of_nat_eq_iff)
  with h1 h2 example_evaluation show ?thesis unfolding c_def by (intro conjI)
qed


text \<open>
  The enumeration cell builds \<open>test_images\<close> and \<open>ground_truth_ids\<close> together: they have
  the same length, and the id at a position is the id of the label of the image at this
  position, the name of the folder that holds the file.
\<close>

lemma label_files_aligned:
  assumes "label_files labels files both = Inr both'"
    and "length (fst both) = length (snd both)"
    and "\<forall>i<length (fst both).
           labels (os_path_basename (os_path_dirname (image_path (fst both ! i)))) =
             Some (snd both ! i)"
  shows "length (fst both') = length (snd both') \<and>
         (\<forall>i<length (fst both').
            labels (os_path_basename (os_path_dirname (image_path (fst both' ! i)))) =
              Some (snd both' ! i))"
  using assms
proof (induction files arbitrary: both)
  case Nil
  then show ?case by simp
next
  case (Cons f files)
  let ?label = "os_path_basename (os_path_dirname f)"
  from Cons.prems(1) obtain label_id where l: "labels ?label = Some label_id"
    by (cases "labels ?label") (simp_all add: Let_def)
  let ?next = "(fst both @ [\<lparr>image_path = f, imageID = os_path_basename f\<rparr>],
                snd both @ [label_id])"
  from Cons.prems(1) l have r: "label_files labels files ?next = Inr both'"
    by (simp add: Let_def)
  show ?case
  proof (rule Cons.IH [OF r])
    show "length (fst ?next) = length (snd ?next)" using Cons.prems(2) by simp
    show "\<forall>i<length (fst ?next).
           labels (os_path_basename (os_path_dirname (image_path (fst ?next ! i)))) =
             Some (snd ?next ! i)"
      using Cons.prems(2,3) l by (auto simp: nth_append less_Suc_eq)
  qed
qed

lemma label_folders_aligned:
  assumes "label_folders glob extension labels folders both = Inr both'"
    and "length (fst both) = length (snd both)"
    and "\<forall>i<length (fst both).
           labels (os_path_basename (os_path_dirname (image_path (fst both ! i)))) =
             Some (snd both ! i)"
  shows "length (fst both') = length (snd both') \<and>
         (\<forall>i<length (fst both').
            labels (os_path_basename (os_path_dirname (image_path (fst both' ! i)))) =
              Some (snd both' ! i))"
  using assms
proof (induction folders arbitrary: both)
  case Nil
  then show ?case by simp
next
  case (Cons folder folders)
  from Cons.prems(1) obtain files_in_folder mid where
    "label_files labels files_in_folder both = Inr mid"
    and r: "label_folders glob extension labels folders mid = Inr both'"
    by (auto simp: bind_err_Inr_iff)
  from label_files_aligned [OF this(1) Cons.prems(2,3)]
  have "length (fst mid) = length (snd mid)"
    and "\<forall>i<length (fst mid).
           labels (os_path_basename (os_path_dirname (image_path (fst mid ! i)))) =
             Some (snd mid ! i)"
    by simp_all
  from Cons.IH [OF r this] show ?case .
qed

lemma prepare_evaluation_aligned:
  assumes "prepare_evaluation glob cfg labels = Inr (test_images, ground_truth_ids)"
  shows "length test_images = length ground_truth_ids \<and>
         (\<forall>i<length test_images.
            labels (os_path_basename (os_path_dirname (image_path (test_images ! i)))) =
              Some (ground_truth_ids ! i))"
proof -
  from assms obtain folders where
    "label_folders glob (evaluate_image_extension cfg) labels folders ([], []) =
       Inr (test_images, ground_truth_ids)"
    by (auto simp: prepare_evaluation_def bind_err_Inr_iff split: if_splits)
  from label_folders_aligned [OF this] show ?thesis by simp
qed

lemma dirname_examples:
  "os_path_dirname ''eval/cat/1.jpg'' = ''eval/cat''"
  "os_path_basename (os_path_dirname ''eval/cat/1.jpg'') = ''cat''"
  "os_path_dirname ''/1.jpg'' = ''/''"
  "os_path_dirname ''1.jpg'' = []"
  by (simp_all add: os_path_dirname_def os_path_basename_def rstrip_sep_def)

end
